theory Spec2Isabelle
  imports Main "HOL-Library.Word"
begin

text \<open>
  The buffer pool of BusTub as functions on explicit states: the LRU replacer
  (\<open>lru_replacer.cpp\<close>), the pool instance (\<open>buffer_pool_manager_instance.cpp\<close>) and
  the sharded pool (\<open>parallel_buffer_pool_manager.cpp\<close>). An operation takes the state
  of its object and returns its result with the new state; a pointer to a frame is the
  frame's index; the latches are left out, every operation being one atomic step.
\<close>

section \<open>Data model\<close>

text \<open>
  Page ids are the source's \<open>page_id_t\<close> (a signed integer, with the sentinel
  \<open>INVALID_PAGE_ID = -1\<close>); frame ids index the frame array \<open>pages_\<close> and are
  natural numbers here. A byte is an 8-bit word.
\<close>

type_synonym page_id_t = int
type_synonym frame_id_t = nat
type_synonym byte = "8 word"

definition INVALID_PAGE_ID :: page_id_t where
  "INVALID_PAGE_ID = - 1"

text \<open>
  Modelled from the spec: \<open>PAGE_SIZE\<close> is declared in \<open>common/config.h\<close>, which is not
  among the sources; the spec gives "a fixed-size byte buffer (conventionally 4096 bytes)".
\<close>

definition PAGE_SIZE :: nat where
  "PAGE_SIZE = 4096"

text \<open>
  Modelled from the spec: the class \<open>Page\<close> is declared in \<open>storage/page/page.h\<close>, which
  is not among the sources. The spec's frame: the raw page buffer, the resident page id, the
  pin count (an integer, the number of outstanding users) and the dirty flag.
\<close>

record Page =
  data :: "byte list"
  page_id :: page_id_t
  pin_count :: int
  is_dirty :: bool

text \<open>\<open>Page::ResetMemory\<close>: \<open>memset\<close> of the whole buffer to zero.\<close>

definition ResetMemory :: "Page \<Rightarrow> Page" where
  "ResetMemory p = p\<lparr>data := map (\<lambda>b. 0) (data p)\<rparr>"

text \<open>The \<open>Page\<close> constructor: zeroed buffer, no page, no pin, clean.\<close>

definition new_Page :: Page where
  "new_Page = \<lparr>data = replicate PAGE_SIZE 0, page_id = INVALID_PAGE_ID,
                pin_count = 0, is_dirty = False\<rparr>"

subsection \<open>The disk collaborator\<close>

text \<open>
  Modelled from the spec: the class \<open>DiskManager\<close> is not among the sources. The spec's
  collaborator provides \<open>read_page(id, buf)\<close> and \<open>write_page(id, buf)\<close>; the model is a
  store from page ids to page images, together with the trace of the requests it received,
  so that claims about which I/O is issued, and in which order, can be stated.
\<close>

datatype disk_event =
  DiskRead page_id_t
  | DiskWrite page_id_t "byte list"
  | DiskDeallocate page_id_t

record DiskManager =
  contents :: "page_id_t \<Rightarrow> byte list"
  io_log :: "disk_event list"

definition ReadPage :: "page_id_t \<Rightarrow> DiskManager \<Rightarrow> byte list \<times> DiskManager" where
  "ReadPage pid d = (contents d pid, d\<lparr>io_log := io_log d @ [DiskRead pid]\<rparr>)"

definition WritePage :: "page_id_t \<Rightarrow> byte list \<Rightarrow> DiskManager \<Rightarrow> DiskManager" where
  "WritePage pid buf d =
     d\<lparr>contents := (contents d)(pid := buf), io_log := io_log d @ [DiskWrite pid buf]\<rparr>"

section \<open>The LRU replacer (\<open>lru_replacer.cpp\<close>)\<close>

text \<open>
  \<open>replacer_\<close> is the list of evictable frame ids, head first out. The source's \<open>map_\<close>
  maps each frame id of the list to its list iterator; every mutation updates both
  together, so \<open>map_.find(f) != map_.end()\<close> is membership in the list and
  \<open>replacer_.erase(iter->second)\<close> removes that frame id from the list.
\<close>

record LRUReplacer =
  max_pages :: nat
  replacer_list :: "frame_id_t list"

definition new_LRUReplacer :: "nat \<Rightarrow> LRUReplacer" where
  "new_LRUReplacer num_pages = \<lparr>max_pages = num_pages, replacer_list = []\<rparr>"

definition Victim :: "LRUReplacer \<Rightarrow> frame_id_t option \<times> LRUReplacer" where
  "Victim r =
     (case replacer_list r of
        [] \<Rightarrow> (None, r)
      | f # rest \<Rightarrow> (Some f, r\<lparr>replacer_list := rest\<rparr>))"

definition Pin :: "frame_id_t \<Rightarrow> LRUReplacer \<Rightarrow> LRUReplacer" where
  "Pin frame_id r =
     (if frame_id \<in> set (replacer_list r)
      then r\<lparr>replacer_list := remove1 frame_id (replacer_list r)\<rparr>
      else r)"

definition Unpin :: "frame_id_t \<Rightarrow> LRUReplacer \<Rightarrow> LRUReplacer" where
  "Unpin frame_id r =
     (if frame_id \<in> set (replacer_list r) then r
      else if length (replacer_list r) < max_pages r
      then r\<lparr>replacer_list := replacer_list r @ [frame_id]\<rparr>
      else r)"

definition Size :: "LRUReplacer \<Rightarrow> nat" where
  "Size r = length (replacer_list r)"

section \<open>The pool instance (\<open>buffer_pool_manager_instance.cpp\<close>)\<close>

text \<open>
  The ways the source can stop without returning: a failed \<open>assert\<close>, the read of the
  local \<open>origin_id\<close> of \<open>NewPgImp\<close> when no loop iteration assigned it, and
  \<open>std::vector::at\<close> out of range.
\<close>

datatype error = AssertionFailed | UninitialisedRead | OutOfRange

text \<open>
  \<open>page_table_\<close> is a \<open>std::unordered_map\<close>: an association list with distinct keys,
  whose list order stands for the map's (unspecified) iteration order.
\<close>

type_synonym page_table_t = "(page_id_t \<times> frame_id_t) list"

record BufferPoolManagerInstance =
  pool_size :: nat
  num_instances :: nat
  instance_index :: nat
  next_page_id :: page_id_t
  pages :: "Page list"
  page_table :: page_table_t
  free_list :: "frame_id_t list"
  replacer :: LRUReplacer
  disk_manager :: DiskManager

text \<open>\<open>page_table_.erase(iter)\<close> for \<open>iter = page_table_.find(key)\<close>.\<close>

definition erase_key :: "page_id_t \<Rightarrow> page_table_t \<Rightarrow> page_table_t" where
  "erase_key k pt = filter (\<lambda>e. fst e \<noteq> k) pt"

text \<open>\<open>page_table_.emplace(k, f)\<close>: inserts only when the key is absent.\<close>

definition emplace :: "page_id_t \<Rightarrow> frame_id_t \<Rightarrow> page_table_t \<Rightarrow> page_table_t" where
  "emplace k f pt = (if map_of pt k = None then pt @ [(k, f)] else pt)"

text \<open>
  The loop of \<open>NewPgImp\<close> and \<open>FetchPgImp\<close> over the page table: the first entry whose
  frame is the victim is erased, and its key is returned (\<open>origin_id\<close>; \<open>None\<close> when
  the loop ends without a match).
\<close>

fun erase_frame :: "frame_id_t \<Rightarrow> page_table_t \<Rightarrow> page_id_t option \<times> page_table_t" where
  "erase_frame victim [] = (None, [])"
| "erase_frame victim (e # rest) =
     (if snd e = victim then (Some (fst e), rest)
      else (fst (erase_frame victim rest), e # snd (erase_frame victim rest)))"

text \<open>The constructor, with its two assertions.\<close>

definition new_BufferPoolManagerInstance ::
    "nat \<Rightarrow> nat \<Rightarrow> nat \<Rightarrow> DiskManager \<Rightarrow> error + BufferPoolManagerInstance" where
  "new_BufferPoolManagerInstance n m k d =
     (if m = 0 then Inl AssertionFailed
      else if m \<le> k then Inl AssertionFailed
      else Inr \<lparr>pool_size = n, num_instances = m, instance_index = k,
                next_page_id = int k,
                pages = replicate n new_Page,
                page_table = [],
                free_list = [0..<n],
                replacer = new_LRUReplacer n,
                disk_manager = d\<rparr>)"

text \<open>
  \<open>ValidatePageId\<close>: \<open>page_id % num_instances_ == instance_index_\<close>. Page ids are
  unbounded integers in this model (no wrap-around of the 32-bit counter \<open>next_page_id_\<close>
  is modelled), and the ids handed out are never negative, where \<open>%\<close> is \<open>mod\<close>.
\<close>

definition ValidatePageId :: "page_id_t \<Rightarrow> BufferPoolManagerInstance \<Rightarrow> bool" where
  "ValidatePageId pid s = (pid mod int (num_instances s) = int (instance_index s))"

definition AllocatePage ::
    "BufferPoolManagerInstance \<Rightarrow> error + (page_id_t \<times> BufferPoolManagerInstance)" where
  "AllocatePage s =
     (if ValidatePageId (next_page_id s) s
      then Inr (next_page_id s, s\<lparr>next_page_id := next_page_id s + int (num_instances s)\<rparr>)
      else Inl AssertionFailed)"

text \<open>
  Modelled from the spec: \<open>DeallocatePage\<close> is defined in
  \<open>buffer_pool_manager_instance.h\<close>, which is not among the sources; the spec has
  \<open>DeletePage\<close> call \<open>disk.deallocate_page(page_id)\<close>, recorded here in the disk's trace.
\<close>

definition DeallocatePage :: "page_id_t \<Rightarrow> BufferPoolManagerInstance \<Rightarrow> BufferPoolManagerInstance" where
  "DeallocatePage pid s =
     s\<lparr>disk_manager := (disk_manager s)\<lparr>io_log := io_log (disk_manager s) @ [DiskDeallocate pid]\<rparr>\<rparr>"

text \<open>The frame as \<open>FlushPgImp\<close>, \<open>FlushAllPgsImp\<close> and \<open>DeletePgImp\<close> leave it.\<close>

definition reset_Page :: "Page \<Rightarrow> Page" where
  "reset_Page p = (ResetMemory p)\<lparr>page_id := INVALID_PAGE_ID, pin_count := 0, is_dirty := False\<rparr>"

definition write_if_dirty :: "page_id_t \<Rightarrow> Page \<Rightarrow> DiskManager \<Rightarrow> DiskManager" where
  "write_if_dirty pid p d = (if is_dirty p then WritePage pid (data p) d else d)"

definition FlushPgImp ::
    "page_id_t \<Rightarrow> BufferPoolManagerInstance \<Rightarrow> bool \<times> BufferPoolManagerInstance" where
  "FlushPgImp pid s =
     (case map_of (page_table s) pid of
        None \<Rightarrow> (False, s)
      | Some frame_id \<Rightarrow>
          if pid = INVALID_PAGE_ID then (False, s)
          else (True,
                s\<lparr>page_table := erase_key pid (page_table s),
                  disk_manager := write_if_dirty pid (pages s ! frame_id) (disk_manager s),
                  pages := (pages s)[frame_id := reset_Page (pages s ! frame_id)],
                  free_list := free_list s @ [frame_id]\<rparr>))"

text \<open>The first loop of \<open>FlushAllPgsImp\<close>, over the entries of the page table.\<close>

fun flush_entries :: "page_table_t \<Rightarrow> Page list \<Rightarrow> DiskManager \<Rightarrow> Page list \<times> DiskManager" where
  "flush_entries [] ps d = (ps, d)"
| "flush_entries (e # rest) ps d =
     flush_entries rest (ps[snd e := reset_Page (ps ! snd e)])
       (write_if_dirty (fst e) (ps ! snd e) d)"

definition FlushAllPgsImp :: "BufferPoolManagerInstance \<Rightarrow> BufferPoolManagerInstance" where
  "FlushAllPgsImp s =
     s\<lparr>pages := fst (flush_entries (page_table s) (pages s) (disk_manager s)),
       disk_manager := snd (flush_entries (page_table s) (pages s) (disk_manager s)),
       page_table := [],
       free_list := [0..<pool_size s]\<rparr>"

text \<open>
  The block both \<open>NewPgImp\<close> and \<open>FetchPgImp\<close> use to obtain a frame: the head of the
  free list when there is one, otherwise the replacer's victim; \<open>None\<close> when neither
  gives a frame (the source then returns \<open>nullptr\<close>).
\<close>

definition find_victim ::
    "BufferPoolManagerInstance \<Rightarrow> (frame_id_t \<times> BufferPoolManagerInstance) option" where
  "find_victim s =
     (case free_list s of
        f # rest \<Rightarrow> Some (f, s\<lparr>free_list := rest\<rparr>)
      | [] \<Rightarrow>
          (case fst (Victim (replacer s)) of
             None \<Rightarrow> None
           | Some f \<Rightarrow> Some (f, s\<lparr>replacer := snd (Victim (replacer s))\<rparr>)))"

text \<open>The first loop of \<open>NewPgImp\<close>: the number of frames that hold a page and are pinned.\<close>

definition pinned_num :: "BufferPoolManagerInstance \<Rightarrow> nat" where
  "pinned_num s =
     length (filter (\<lambda>i. page_id (pages s ! i) \<noteq> INVALID_PAGE_ID \<and> pin_count (pages s ! i) \<noteq> 0)
               [0..<pool_size s])"

text \<open>
  The tail of \<open>NewPgImp\<close> and of \<open>FetchPgImp\<close>, from "reset the page" on: the frame
  takes the page id with pin count 1 and the dirty flag cleared, its buffer is zeroed, the
  mapping is emplaced, the page is read from disk into the buffer, and the frame is pinned
  in the replacer.
\<close>

definition install_page ::
    "page_id_t \<Rightarrow> frame_id_t \<Rightarrow> page_table_t \<Rightarrow> DiskManager \<Rightarrow> BufferPoolManagerInstance
      \<Rightarrow> BufferPoolManagerInstance" where
  "install_page pid frame_id pt d s =
     s\<lparr>pages := (pages s)[frame_id :=
          (ResetMemory ((pages s ! frame_id)\<lparr>page_id := pid, pin_count := 1, is_dirty := False\<rparr>))
            \<lparr>data := fst (ReadPage pid d)\<rparr>],
       page_table := emplace pid frame_id pt,
       disk_manager := snd (ReadPage pid d),
       replacer := Pin frame_id (replacer s)\<rparr>"

text \<open>
  The write-back of \<open>NewPgImp\<close>: \<open>WritePage(origin_id, page->GetData())\<close> when the
  victim frame is dirty. \<open>origin_id\<close> is the key the loop over the page table found; when
  the loop found none, the call reads an uninitialised local.
\<close>

definition write_origin :: "page_id_t option \<Rightarrow> Page \<Rightarrow> DiskManager \<Rightarrow> error + DiskManager" where
  "write_origin origin_id p d =
     (if is_dirty p
      then (case origin_id of
              None \<Rightarrow> Inl UninitialisedRead
            | Some oid \<Rightarrow> Inr (WritePage oid (data p) d))
      else Inr d)"

text \<open>
  \<open>NewPgImp\<close> returns the frame and writes the new page id through its out-parameter:
  \<open>Some (frame, page id)\<close>, or \<open>None\<close> for \<open>nullptr\<close> (the out-parameter untouched).
\<close>

definition NewPgImp ::
    "BufferPoolManagerInstance \<Rightarrow>
      error + ((frame_id_t \<times> page_id_t) option \<times> BufferPoolManagerInstance)" where
  "NewPgImp s =
     (if pinned_num s = pool_size s then Inr (None, s)
      else
        (case find_victim s of
           None \<Rightarrow> Inr (None, s)
         | Some (victim_id, s1) \<Rightarrow>
             (case write_origin (fst (erase_frame victim_id (page_table s1)))
                     (pages s1 ! victim_id) (disk_manager s1) of
                Inl e \<Rightarrow> Inl e
              | Inr d \<Rightarrow>
                  (case AllocatePage s1 of
                     Inl e \<Rightarrow> Inl e
                   | Inr (new_id, s2) \<Rightarrow>
                       Inr (Some (victim_id, new_id),
                            install_page new_id victim_id
                              (snd (erase_frame victim_id (page_table s1))) d s2)))))"

definition FetchPgImp ::
    "page_id_t \<Rightarrow> BufferPoolManagerInstance \<Rightarrow> frame_id_t option \<times> BufferPoolManagerInstance" where
  "FetchPgImp pid s =
     (case map_of (page_table s) pid of
        Some frame_id \<Rightarrow>
          (Some frame_id,
           s\<lparr>pages := (pages s)[frame_id :=
                (pages s ! frame_id)\<lparr>pin_count := pin_count (pages s ! frame_id) + 1\<rparr>],
             replacer := Pin frame_id (replacer s)\<rparr>)
      | None \<Rightarrow>
          (case find_victim s of
             None \<Rightarrow> (None, s)
           | Some (frame_id, s1) \<Rightarrow>
               (Some frame_id,
                install_page pid frame_id
                  (snd (erase_frame frame_id (page_table s1)))
                  (write_if_dirty (page_id (pages s1 ! frame_id)) (pages s1 ! frame_id)
                     (disk_manager s1))
                  s1)))"

definition DeletePgImp ::
    "page_id_t \<Rightarrow> BufferPoolManagerInstance \<Rightarrow> bool \<times> BufferPoolManagerInstance" where
  "DeletePgImp pid s0 =
     (let s = DeallocatePage pid s0 in
      case map_of (page_table s) pid of
        None \<Rightarrow> (True, s)
      | Some frame_id \<Rightarrow>
          if pin_count (pages s ! frame_id) = 0
          then (True,
                s\<lparr>disk_manager := write_if_dirty pid (pages s ! frame_id) (disk_manager s),
                  pages := (pages s)[frame_id := reset_Page (pages s ! frame_id)],
                  page_table := erase_key pid (page_table s),
                  free_list := free_list s @ [frame_id]\<rparr>)
          else (False, s))"

definition UnpinPgImp ::
    "page_id_t \<Rightarrow> bool \<Rightarrow> BufferPoolManagerInstance \<Rightarrow> bool \<times> BufferPoolManagerInstance" where
  "UnpinPgImp pid dirty s =
     (case map_of (page_table s) pid of
        None \<Rightarrow> (False, s)
      | Some frame_id \<Rightarrow>
          if pin_count (pages s ! frame_id) > 0
          then (True,
                s\<lparr>pages := (pages s)[frame_id :=
                     (pages s ! frame_id)
                       \<lparr>pin_count := pin_count (pages s ! frame_id) - 1,
                        is_dirty := (if dirty then dirty else is_dirty (pages s ! frame_id))\<rparr>],
                  replacer := Unpin frame_id (replacer s)\<rparr>)
          else (False, s))"

section \<open>Callers\<close>

text \<open>
  The public operations (\<open>FetchPage\<close>, \<open>NewPage\<close>, ... of the base class forward to the
  \<open>...Imp\<close> functions), as requests to one pool instance. \<open>WriteData f bs\<close> is the
  caller storing the bytes \<open>bs\<close> at the start of the buffer of frame \<open>f\<close>, through the
  frame reference that \<open>FetchPage\<close> or \<open>NewPage\<close> returned.
\<close>

datatype request =
  FetchPage page_id_t
  | NewPage
  | UnpinPage page_id_t bool
  | FlushPage page_id_t
  | FlushAllPages
  | DeletePage page_id_t
  | WriteData frame_id_t "byte list"

datatype response =
  RFrame "frame_id_t option"
  | RNew "(frame_id_t \<times> page_id_t) option"
  | RBool bool
  | RUnit

definition write_data ::
    "frame_id_t \<Rightarrow> byte list \<Rightarrow> BufferPoolManagerInstance \<Rightarrow> BufferPoolManagerInstance" where
  "write_data f bs s =
     s\<lparr>pages := (pages s)[f :=
          (pages s ! f)\<lparr>data := take (length (data (pages s ! f)))
                                 (bs @ drop (length bs) (data (pages s ! f)))\<rparr>]\<rparr>"

fun step ::
    "request \<Rightarrow> BufferPoolManagerInstance \<Rightarrow> error + (response \<times> BufferPoolManagerInstance)" where
  "step (FetchPage pid) s = Inr (RFrame (fst (FetchPgImp pid s)), snd (FetchPgImp pid s))"
| "step NewPage s =
     (case NewPgImp s of Inl e \<Rightarrow> Inl e | Inr (r, s') \<Rightarrow> Inr (RNew r, s'))"
| "step (UnpinPage pid dirty) s =
     Inr (RBool (fst (UnpinPgImp pid dirty s)), snd (UnpinPgImp pid dirty s))"
| "step (FlushPage pid) s = Inr (RBool (fst (FlushPgImp pid s)), snd (FlushPgImp pid s))"
| "step FlushAllPages s = Inr (RUnit, FlushAllPgsImp s)"
| "step (DeletePage pid) s = Inr (RBool (fst (DeletePgImp pid s)), snd (DeletePgImp pid s))"
| "step (WriteData f bs) s = Inr (RUnit, write_data f bs s)"

text \<open>A run of requests; it stops at the first error, as the process would.\<close>

fun run ::
    "request list \<Rightarrow> BufferPoolManagerInstance \<Rightarrow>
      error + (response list \<times> BufferPoolManagerInstance)" where
  "run [] s = Inr ([], s)"
| "run (q # qs) s =
     (case step q s of
        Inl e \<Rightarrow> Inl e
      | Inr (r, s') \<Rightarrow>
          (case run qs s' of Inl e \<Rightarrow> Inl e | Inr (rs, s'') \<Rightarrow> Inr (r # rs, s'')))"

text \<open>A disk on which nothing was written yet: every page reads as zero bytes.\<close>

definition blank_disk :: DiskManager where
  "blank_disk = \<lparr>contents = (\<lambda>pid. replicate PAGE_SIZE 0), io_log = []\<rparr>"

text \<open>A run on a fresh single pool (the three-argument constructor: one instance, index 0).\<close>

definition run_fresh ::
    "nat \<Rightarrow> DiskManager \<Rightarrow> request list \<Rightarrow>
      error + (response list \<times> BufferPoolManagerInstance)" where
  "run_fresh n d qs =
     (case new_BufferPoolManagerInstance n 1 0 d of
        Inl e \<Rightarrow> Inl e
      | Inr s \<Rightarrow> run qs s)"

section \<open>The sharded pool (\<open>parallel_buffer_pool_manager.cpp\<close>)\<close>

text \<open>
  The instances of \<open>buffer_pool_manager_\<close> all hold a pointer to the one \<open>DiskManager\<close>.
  The model keeps that disk in the pool and hands it to an instance for the duration of a
  call (\<open>with_instance\<close>, which is also \<open>buffer_pool_manager_.at(pos)\<close>).
\<close>

record ParallelBufferPoolManager =
  par_pool_size :: nat
  par_num_instances :: nat
  buffer_pool_manager :: "BufferPoolManagerInstance list"
  par_disk_manager :: DiskManager

text \<open>The loop of the constructor, over \<open>i = 0, ..., num_instances_ - 1\<close>.\<close>

fun make_instances ::
    "nat list \<Rightarrow> nat \<Rightarrow> nat \<Rightarrow> DiskManager \<Rightarrow> error + BufferPoolManagerInstance list" where
  "make_instances [] n m d = Inr []"
| "make_instances (i # is) n m d =
     (case new_BufferPoolManagerInstance n m i d of
        Inl e \<Rightarrow> Inl e
      | Inr b \<Rightarrow>
          (case make_instances is n m d of
             Inl e \<Rightarrow> Inl e
           | Inr bs \<Rightarrow> Inr (b # bs)))"

definition new_ParallelBufferPoolManager ::
    "nat \<Rightarrow> nat \<Rightarrow> DiskManager \<Rightarrow> error + ParallelBufferPoolManager" where
  "new_ParallelBufferPoolManager m n d =
     (case make_instances [0..<(if m > 0 then m else 1)] n (if m > 0 then m else 1) d of
        Inl e \<Rightarrow> Inl e
      | Inr bs \<Rightarrow>
          Inr \<lparr>par_pool_size = n, par_num_instances = (if m > 0 then m else 1),
                buffer_pool_manager = bs, par_disk_manager = d\<rparr>)"

definition GetPoolSize :: "ParallelBufferPoolManager \<Rightarrow> nat" where
  "GetPoolSize P = par_pool_size P * par_num_instances P"

definition with_instance ::
    "nat \<Rightarrow> (BufferPoolManagerInstance \<Rightarrow> error + ('a \<times> BufferPoolManagerInstance)) \<Rightarrow>
      ParallelBufferPoolManager \<Rightarrow> error + ('a \<times> ParallelBufferPoolManager)" where
  "with_instance pos f P =
     (if pos < length (buffer_pool_manager P)
      then (case f ((buffer_pool_manager P ! pos)\<lparr>disk_manager := par_disk_manager P\<rparr>) of
              Inl e \<Rightarrow> Inl e
            | Inr (r, b) \<Rightarrow>
                Inr (r, P\<lparr>buffer_pool_manager := (buffer_pool_manager P)[pos := b],
                          par_disk_manager := disk_manager b\<rparr>))
      else Inl OutOfRange)"

text \<open>
  The loop of the sharded \<open>NewPgImp\<close>: \<open>for (i = 0; i <= num_instances_; i++)\<close>, asking
  the instance at \<open>i % num_instances_\<close> and leaving the loop at the first frame returned.
  The bound \<open>n\<close> is \<open>num_instances_\<close>.
\<close>

function par_NewPg_loop ::
    "nat \<Rightarrow> nat \<Rightarrow> ParallelBufferPoolManager \<Rightarrow>
      error + ((frame_id_t \<times> page_id_t) option \<times> ParallelBufferPoolManager)" where
  "par_NewPg_loop n i P =
     (if i \<le> n
      then (case with_instance (i mod n) NewPgImp P of
              Inl e \<Rightarrow> Inl e
            | Inr (None, P') \<Rightarrow> par_NewPg_loop n (i + 1) P'
            | Inr (Some r, P') \<Rightarrow> Inr (Some r, P'))
      else Inr (None, P))"
  by pat_completeness auto
termination
  by (relation "measure (\<lambda>(n, i, P). Suc n - i)") auto

definition par_NewPgImp ::
    "ParallelBufferPoolManager \<Rightarrow>
      error + ((frame_id_t \<times> page_id_t) option \<times> ParallelBufferPoolManager)" where
  "par_NewPgImp P = par_NewPg_loop (par_num_instances P) 0 P"

section \<open>Well-formed pool states\<close>

text \<open>
  The facts about a pool instance that every operation keeps: the frame array has
  \<open>pool_size\<close> frames and every frame id in the free list, the replacer and the page table
  is below \<open>pool_size\<close> (so that every \<open>pages_[frame_id]\<close> of the source is in range); a
  page-table entry names the frame that holds its page; the keys of the page table are
  distinct; a dirty frame is in the range of the page table; no pin count is negative; and
  the allocator's next page id is a non-negative id of this instance.
\<close>

definition wf_pool :: "BufferPoolManagerInstance \<Rightarrow> bool" where
  "wf_pool s \<longleftrightarrow>
     length (pages s) = pool_size s \<and>
     (\<forall>f \<in> set (free_list s). f < pool_size s) \<and>
     (\<forall>f \<in> set (replacer_list (replacer s)). f < pool_size s) \<and>
     (\<forall>e \<in> set (page_table s). snd e < pool_size s \<and> page_id (pages s ! snd e) = fst e) \<and>
     distinct (map fst (page_table s)) \<and>
     (\<forall>f < pool_size s. is_dirty (pages s ! f) \<longrightarrow> f \<in> snd ` set (page_table s)) \<and>
     (\<forall>f < pool_size s. 0 \<le> pin_count (pages s ! f)) \<and>
     0 < num_instances s \<and> 0 \<le> next_page_id s \<and>
     next_page_id s mod int (num_instances s) = int (instance_index s)"

section \<open>Example pool states\<close>

text \<open>
  Three states that runs from a fresh pool reach (lemmas \<open>pool_A_reached\<close>,
  \<open>pool_B_reached\<close>, \<open>pool_C_reached\<close> below). \<open>pool_A\<close>: one frame, holding
  page 0, pinned once. \<open>pool_B\<close>: one frame, holding page 0, unpinned and dirty, its buffer
  starting with the byte 120. \<open>pool_C\<close>: two frames, both unpinned and in the replacer;
  frame 0 holds the dirty page 0, frame 1 the clean page 1.
\<close>

definition pool_A :: BufferPoolManagerInstance where
  "pool_A =
     \<lparr>pool_size = 1, num_instances = 1, instance_index = 0, next_page_id = 1,
      pages = [\<lparr>data = replicate PAGE_SIZE 0, page_id = 0, pin_count = 1, is_dirty = False\<rparr>],
      page_table = [(0, 0)], free_list = [],
      replacer = \<lparr>max_pages = 1, replacer_list = []\<rparr>,
      disk_manager = \<lparr>contents = (\<lambda>pid. replicate PAGE_SIZE 0), io_log = [DiskRead 0]\<rparr>\<rparr>"

definition pool_B :: BufferPoolManagerInstance where
  "pool_B =
     \<lparr>pool_size = 1, num_instances = 1, instance_index = 0, next_page_id = 1,
      pages = [\<lparr>data = 120 # replicate (PAGE_SIZE - 1) 0, page_id = 0, pin_count = 0, is_dirty = True\<rparr>],
      page_table = [(0, 0)], free_list = [],
      replacer = \<lparr>max_pages = 1, replacer_list = [0]\<rparr>,
      disk_manager = \<lparr>contents = (\<lambda>pid. replicate PAGE_SIZE 0), io_log = [DiskRead 0]\<rparr>\<rparr>"

definition pool_C :: BufferPoolManagerInstance where
  "pool_C =
     \<lparr>pool_size = 2, num_instances = 1, instance_index = 0, next_page_id = 2,
      pages = [\<lparr>data = 120 # replicate (PAGE_SIZE - 1) 0, page_id = 0, pin_count = 0, is_dirty = True\<rparr>,
               \<lparr>data = replicate PAGE_SIZE 0, page_id = 1, pin_count = 0, is_dirty = False\<rparr>],
      page_table = [(0, 0), (1, 1)], free_list = [],
      replacer = \<lparr>max_pages = 2, replacer_list = [0, 1]\<rparr>,
      disk_manager = \<lparr>contents = (\<lambda>pid. replicate PAGE_SIZE 0), io_log = [DiskRead 0, DiskRead 1]\<rparr>\<rparr>"

section \<open>Evaluating runs\<close>

lemmas bpm_defs =
  run_fresh_def new_BufferPoolManagerInstance_def NewPgImp_def FetchPgImp_def UnpinPgImp_def
  FlushPgImp_def FlushAllPgsImp_def DeletePgImp_def DeallocatePage_def reset_Page_def
  erase_key_def write_data_def pinned_num_def find_victim_def AllocatePage_def
  ValidatePageId_def install_page_def write_origin_def new_Page_def emplace_def
  new_LRUReplacer_def Pin_def Unpin_def Victim_def ReadPage_def WritePage_def
  write_if_dirty_def ResetMemory_def INVALID_PAGE_ID_def blank_disk_def

lemmas par_defs = new_ParallelBufferPoolManager_def par_NewPgImp_def with_instance_def

lemma upt_0_2: "[0..<2] = [0, Suc 0]"
  by (simp add: numeral_2_eq_2)

lemma replicate_2: "replicate 2 x = [x, x]"
  by (simp add: numeral_2_eq_2)

lemma take_PAGE_SIZE_Cons: "take PAGE_SIZE (x # xs) = x # take (PAGE_SIZE - 1) xs"
  by (simp add: PAGE_SIZE_def)

section \<open>Facts about the page table, the replacer and victim selection\<close>

lemma erase_frame_subset: "set (snd (erase_frame f pt)) \<subseteq> set pt"
  by (induction pt) auto

lemma erase_frame_keep: "e \<in> set pt \<Longrightarrow> snd e \<noteq> f \<Longrightarrow> e \<in> set (snd (erase_frame f pt))"
  by (induction pt) auto

lemma erase_frame_distinct: "distinct (map fst pt) \<Longrightarrow> distinct (map fst (snd (erase_frame f pt)))"
proof (induction pt)
  case Nil
  then show ?case by simp
next
  case (Cons e pt)
  have "fst ` set (snd (erase_frame f pt)) \<subseteq> fst ` set pt"
    using erase_frame_subset by (rule image_mono)
  with Cons show ?case by auto
qed

lemma erase_frame_None: "fst (erase_frame f pt) = None \<longleftrightarrow> f \<notin> snd ` set pt"
  by (induction pt) auto

lemma erase_frame_Some: "fst (erase_frame f pt) = Some p \<Longrightarrow> (p, f) \<in> set pt"
  by (induction pt) (auto split: if_splits)

lemma erase_frame_gone:
  "distinct (map fst pt) \<Longrightarrow> \<forall>e \<in> set pt. snd e = f \<longrightarrow> fst e = p \<Longrightarrow>
   f \<notin> snd ` set (snd (erase_frame f pt))"
proof (induction pt)
  case Nil
  then show ?case by simp
next
  case (Cons e pt)
  show ?case
  proof (cases "snd e = f")
    case True
    with Cons.prems have p: "fst e = p" "p \<notin> fst ` set pt" by auto
    have "f \<notin> snd ` set pt"
    proof
      assume "f \<in> snd ` set pt"
      then obtain e' where e': "e' \<in> set pt" "snd e' = f" by auto
      with Cons.prems have "fst e' = p" by auto
      moreover have "fst e' \<in> fst ` set pt" using e' by simp
      ultimately show False using p by simp
    qed
    with True show ?thesis by simp
  next
    case False
    with Cons show ?thesis by auto
  qed
qed

lemma erase_frame_unchanged: "f \<notin> snd ` set pt \<Longrightarrow> snd (erase_frame f pt) = pt"
  by (induction pt) auto

lemma set_emplace: "set (emplace k f pt) \<subseteq> insert (k, f) (set pt)"
  by (auto simp: emplace_def)

lemma emplace_superset: "set pt \<subseteq> set (emplace k f pt)"
  by (auto simp: emplace_def)

lemma emplace_distinct: "distinct (map fst pt) \<Longrightarrow> distinct (map fst (emplace k f pt))"
  by (auto simp: emplace_def map_of_eq_None_iff)

lemma emplace_absent: "map_of pt k = None \<Longrightarrow> emplace k f pt = pt @ [(k, f)]"
  by (simp add: emplace_def)

lemma set_Pin: "set (replacer_list (Pin f r)) \<subseteq> set (replacer_list r)"
  by (simp add: Pin_def set_remove1_subset)

lemma set_Unpin: "set (replacer_list (Unpin f r)) \<subseteq> insert f (set (replacer_list r))"
  by (auto simp: Unpin_def)

lemma find_victim_None: "find_victim s = None \<longleftrightarrow> free_list s = [] \<and> replacer_list (replacer s) = []"
  by (auto simp: find_victim_def Victim_def split: list.splits option.splits)

lemma find_victim_Some:
  assumes "find_victim s = Some (f, s1)"
  shows "f \<in> set (free_list s) \<union> set (replacer_list (replacer s))"
    and "set (free_list s1) \<subseteq> set (free_list s)"
    and "set (replacer_list (replacer s1)) \<subseteq> set (replacer_list (replacer s))"
    and "pages s1 = pages s" and "page_table s1 = page_table s"
    and "disk_manager s1 = disk_manager s" and "pool_size s1 = pool_size s"
    and "num_instances s1 = num_instances s" and "instance_index s1 = instance_index s"
    and "next_page_id s1 = next_page_id s"
  using assms by (auto simp: find_victim_def Victim_def split: list.splits option.splits)

lemma wf_find_victim: "wf_pool s \<Longrightarrow> find_victim s = Some (f, s1) \<Longrightarrow> wf_pool s1 \<and> f < pool_size s"
  using find_victim_Some[of s f s1] unfolding wf_pool_def by auto

lemma wf_install_page:
  assumes "wf_pool s" and "f < pool_size s" and "set pt \<subseteq> set (page_table s)"
    and "distinct (map fst pt)" and "f \<notin> snd ` set pt"
    and "\<forall>e \<in> set (page_table s). snd e \<noteq> f \<longrightarrow> e \<in> set pt"
  shows "wf_pool (install_page pid f pt d s)"
proof -
  let ?s' = "install_page pid f pt d s"
  have len: "length (pages s) = pool_size s" using assms(1) by (simp add: wf_pool_def)
  have pg: "pages ?s' = (pages s)[f := (pages s ! f)\<lparr>page_id := pid, pin_count := 1, is_dirty := False, data := contents d pid\<rparr>]"
    by (simp add: install_page_def ResetMemory_def ReadPage_def)
  have pt': "page_table ?s' = emplace pid f pt" by (simp add: install_page_def)
  have other: "pool_size ?s' = pool_size s" "free_list ?s' = free_list s"
    "num_instances ?s' = num_instances s" "instance_index ?s' = instance_index s"
    "next_page_id ?s' = next_page_id s" "replacer ?s' = Pin f (replacer s)"
    by (simp_all add: install_page_def)
  have c3: "\<forall>g \<in> set (replacer_list (replacer ?s')). g < pool_size ?s'"
    using assms(1) set_Pin[of f "replacer s"] by (auto simp: other wf_pool_def)
  have c4: "\<forall>e \<in> set (page_table ?s'). snd e < pool_size ?s' \<and> page_id (pages ?s' ! snd e) = fst e"
  proof
    fix e assume "e \<in> set (page_table ?s')"
    then consider "e = (pid, f)" | "e \<in> set pt" using set_emplace[of pid f pt] by (auto simp: pt')
    then show "snd e < pool_size ?s' \<and> page_id (pages ?s' ! snd e) = fst e"
    proof cases
      case 1
      then show ?thesis using assms(2) len by (simp add: pg other)
    next
      case 2
      then have "snd e \<noteq> f" "e \<in> set (page_table s)" using assms(3,5) by auto
      then show ?thesis using assms(1) by (auto simp: pg other wf_pool_def)
    qed
  qed
  have c5: "distinct (map fst (page_table ?s'))"
    using assms(4) by (simp add: pt' emplace_distinct)
  have c6: "\<forall>g < pool_size ?s'. is_dirty (pages ?s' ! g) \<longrightarrow> g \<in> snd ` set (page_table ?s')"
  proof (intro allI impI)
    fix g assume g: "g < pool_size ?s'" "is_dirty (pages ?s' ! g)"
    then have gf: "g \<noteq> f" using len by (auto simp: pg other)
    with g have "is_dirty (pages s ! g)" by (simp add: pg)
    with g assms(1) obtain e where e: "e \<in> set (page_table s)" "snd e = g"
      by (auto simp: wf_pool_def other)
    with gf assms(6) have "e \<in> set pt" by auto
    then have "e \<in> set (page_table ?s')" using emplace_superset[of pt pid f] by (auto simp: pt')
    with e show "g \<in> snd ` set (page_table ?s')" by force
  qed
  have c7: "\<forall>g < pool_size ?s'. 0 \<le> pin_count (pages ?s' ! g)"
    using assms(1,2) len by (auto simp: pg other wf_pool_def nth_list_update)
  show ?thesis
    unfolding wf_pool_def using c3 c4 c5 c6 c7 assms(1) len
    by (simp add: other pg) (simp add: wf_pool_def)
qed

lemma wf_install_erased:
  assumes "wf_pool s" and "f < pool_size s"
  shows "wf_pool (install_page pid f (snd (erase_frame f (page_table s))) d s)"
proof (rule wf_install_page[OF assms])
  show "set (snd (erase_frame f (page_table s))) \<subseteq> set (page_table s)"
    by (rule erase_frame_subset)
  show "distinct (map fst (snd (erase_frame f (page_table s))))"
    using assms(1) by (simp add: wf_pool_def erase_frame_distinct)
  show "f \<notin> snd ` set (snd (erase_frame f (page_table s)))"
    using assms(1) by (intro erase_frame_gone[where p = "page_id (pages s ! f)"]) (auto simp: wf_pool_def)
  show "\<forall>e \<in> set (page_table s). snd e \<noteq> f \<longrightarrow> e \<in> set (snd (erase_frame f (page_table s)))"
    by (simp add: erase_frame_keep)
qed

lemma wf_entry: "wf_pool s \<Longrightarrow> map_of (page_table s) pid = Some f \<Longrightarrow>
  (pid, f) \<in> set (page_table s) \<and> f < pool_size s \<and> f < length (pages s) \<and> page_id (pages s ! f) = pid"
  by (auto simp: wf_pool_def dest!: map_of_SomeD)

lemma wf_FetchPgImp: "wf_pool s \<Longrightarrow> wf_pool (snd (FetchPgImp pid s))"
proof -
  assume w: "wf_pool s"
  show ?thesis
  proof (cases "map_of (page_table s) pid")
    case (Some f)
    from wf_entry[OF w Some] have f: "f < pool_size s" "f < length (pages s)" by auto
    have "snd (FetchPgImp pid s) =
        s\<lparr>pages := (pages s)[f := (pages s ! f)\<lparr>pin_count := pin_count (pages s ! f) + 1\<rparr>],
          replacer := Pin f (replacer s)\<rparr>"
      by (simp add: FetchPgImp_def Some)
    moreover have "wf_pool (s\<lparr>pages := (pages s)[f := (pages s ! f)\<lparr>pin_count := pin_count (pages s ! f) + 1\<rparr>],
          replacer := Pin f (replacer s)\<rparr>)"
      using w f set_Pin[of f "replacer s"] unfolding wf_pool_def
      by (auto simp: nth_list_update)
    ultimately show ?thesis by simp
  next
    case None
    show ?thesis
    proof (cases "find_victim s")
      case None': None
      with None w show ?thesis by (simp add: FetchPgImp_def)
    next
      case (Some a)
      then obtain f s1 where a: "find_victim s = Some (f, s1)" by (cases a) auto
      from wf_find_victim[OF w a] find_victim_Some(7)[OF a] have "wf_pool s1" "f < pool_size s1" by auto
      then show ?thesis
        using None a by (simp add: FetchPgImp_def wf_install_erased)
    qed
  qed
qed

lemma wf_next_page_id:
  "wf_pool s \<Longrightarrow> wf_pool (s\<lparr>next_page_id := next_page_id s + int (num_instances s)\<rparr>)"
  by (auto simp: wf_pool_def)

lemma AllocatePage_wf: "wf_pool s \<Longrightarrow>
  AllocatePage s = Inr (next_page_id s, s\<lparr>next_page_id := next_page_id s + int (num_instances s)\<rparr>)"
  by (simp add: AllocatePage_def ValidatePageId_def wf_pool_def)

lemma write_origin_wf:
  assumes "wf_pool s" and "f < pool_size s"
  shows "write_origin (fst (erase_frame f (page_table s))) (pages s ! f) d =
          Inr (write_if_dirty (page_id (pages s ! f)) (pages s ! f) d)"
proof (cases "is_dirty (pages s ! f)")
  case False
  then show ?thesis by (simp add: write_origin_def write_if_dirty_def)
next
  case True
  with assms have "f \<in> snd ` set (page_table s)" by (auto simp: wf_pool_def)
  then obtain p where p: "fst (erase_frame f (page_table s)) = Some p"
    using erase_frame_None[of f "page_table s"] by auto
  from erase_frame_Some[OF p] assms(1) have "page_id (pages s ! f) = p" by (auto simp: wf_pool_def)
  with True p show ?thesis by (simp add: write_origin_def write_if_dirty_def)
qed

lemma NewPgImp_wf_eq:
  assumes "wf_pool s"
  shows "NewPgImp s =
     (if pinned_num s = pool_size s then Inr (None, s)
      else case find_victim s of
             None \<Rightarrow> Inr (None, s)
           | Some (f, s1) \<Rightarrow>
               Inr (Some (f, next_page_id s),
                    install_page (next_page_id s) f (snd (erase_frame f (page_table s)))
                      (write_if_dirty (page_id (pages s ! f)) (pages s ! f) (disk_manager s))
                      (s1\<lparr>next_page_id := next_page_id s + int (num_instances s)\<rparr>)))"
proof (cases "find_victim s")
  case None
  then show ?thesis by (simp add: NewPgImp_def)
next
  case (Some a)
  then obtain f s1 where a: "find_victim s = Some (f, s1)" by (cases a) auto
  note fv = find_victim_Some[OF a]
  from wf_find_victim[OF assms a] have s1: "wf_pool s1" "f < pool_size s1" by (auto simp: fv)
  show ?thesis
    using write_origin_wf[OF s1, of "disk_manager s1"] AllocatePage_wf[OF s1(1)]
    by (simp add: NewPgImp_def a fv)
qed

lemma wf_NewPgImp: "wf_pool s \<Longrightarrow> NewPgImp s = Inr (r, s') \<Longrightarrow> wf_pool s'"
proof -
  assume w: "wf_pool s" and eq: "NewPgImp s = Inr (r, s')"
  show ?thesis
  proof (cases "find_victim s")
    case None
    with eq w show ?thesis by (auto simp: NewPgImp_wf_eq[OF w] split: if_splits)
  next
    case (Some a)
    then obtain f s1 where a: "find_victim s = Some (f, s1)" by (cases a) auto
    note fv = find_victim_Some[OF a]
    from wf_find_victim[OF w a] have s1: "wf_pool s1" "f < pool_size s1" by (auto simp: fv)
    let ?s2 = "s1\<lparr>next_page_id := next_page_id s + int (num_instances s)\<rparr>"
    have "wf_pool ?s2" using wf_next_page_id[OF s1(1)] by (simp add: fv)
    then have "wf_pool (install_page (next_page_id s) f (snd (erase_frame f (page_table ?s2)))
                      (write_if_dirty (page_id (pages s ! f)) (pages s ! f) (disk_manager s)) ?s2)"
      using s1(2) by (intro wf_install_erased) auto
    then show ?thesis
      using eq w by (auto simp: NewPgImp_wf_eq[OF w] a fv split: if_splits)
  qed
qed

lemma NewPgImp_no_error: "wf_pool s \<Longrightarrow> \<exists>r s'. NewPgImp s = Inr (r, s')"
  by (auto simp: NewPgImp_wf_eq split: option.splits)

lemma wf_UnpinPgImp: "wf_pool s \<Longrightarrow> wf_pool (snd (UnpinPgImp pid dirty s))"
proof -
  assume w: "wf_pool s"
  show ?thesis
  proof (cases "map_of (page_table s) pid")
    case None
    with w show ?thesis by (simp add: UnpinPgImp_def)
  next
    case (Some f)
    from wf_entry[OF w Some] have f: "(pid, f) \<in> set (page_table s)" "f < pool_size s" "f < length (pages s)" by auto
    then have img: "f \<in> snd ` set (page_table s)" by force
    show ?thesis
    proof (cases "0 < pin_count (pages s ! f)")
      case False
      with w Some show ?thesis by (simp add: UnpinPgImp_def)
    next
      case True
      have "wf_pool (s\<lparr>pages := (pages s)[f := (pages s ! f)
                       \<lparr>pin_count := pin_count (pages s ! f) - 1,
                        is_dirty := (if dirty then dirty else is_dirty (pages s ! f))\<rparr>],
                  replacer := Unpin f (replacer s)\<rparr>)"
        using w f img True set_Unpin[of f "replacer s"] unfolding wf_pool_def
        by (auto simp: nth_list_update)
      with Some True show ?thesis by (simp add: UnpinPgImp_def)
    qed
  qed
qed

lemma wf_evict:
  assumes "wf_pool s" and "map_of (page_table s) pid = Some f"
    and s': "pages s' = (pages s)[f := reset_Page (pages s ! f)]"
      "page_table s' = erase_key pid (page_table s)"
      "free_list s' = free_list s @ [f]"
      "replacer s' = replacer s" "pool_size s' = pool_size s"
      "num_instances s' = num_instances s" "instance_index s' = instance_index s"
      "next_page_id s' = next_page_id s"
  shows "wf_pool s'"
proof -
  from wf_entry[OF assms(1,2)] have f: "(pid, f) \<in> set (page_table s)" "f < pool_size s" "f < length (pages s)"
    "page_id (pages s ! f) = pid" by auto
  have other: "e \<in> set (page_table s) \<and> snd e \<noteq> f" if "e \<in> set (erase_key pid (page_table s))" for e
    using that assms(1) f(4) by (auto simp: erase_key_def wf_pool_def)
  have keep: "e \<in> set (erase_key pid (page_table s))" if e: "e \<in> set (page_table s)" "snd e \<noteq> f" for e
  proof -
    have "fst e \<noteq> pid"
    proof
      assume "fst e = pid"
      then have "map_of (page_table s) pid = Some (snd e)"
        using e(1) assms(1) by (cases e) (auto simp: wf_pool_def)
      with assms(2) e(2) show False by simp
    qed
    with e(1) show ?thesis by (simp add: erase_key_def)
  qed
  have dist: "distinct (map fst (page_table s'))"
    using assms(1) by (simp add: s' erase_key_def wf_pool_def distinct_map_filter)
  have c6: "\<forall>g < pool_size s'. is_dirty (pages s' ! g) \<longrightarrow> g \<in> snd ` set (page_table s')"
  proof (intro allI impI)
    fix g assume g: "g < pool_size s'" "is_dirty (pages s' ! g)"
    then have gf: "g \<noteq> f" using f(3) by (auto simp: s' reset_Page_def ResetMemory_def)
    with g assms(1) obtain e where e: "e \<in> set (page_table s)" "snd e = g"
      by (auto simp: wf_pool_def s')
    with gf keep have "e \<in> set (page_table s')" by (auto simp: s')
    with e show "g \<in> snd ` set (page_table s')" by force
  qed
  have c4: "\<forall>e \<in> set (page_table s'). snd e < pool_size s' \<and> page_id (pages s' ! snd e) = fst e"
  proof
    fix e assume "e \<in> set (page_table s')"
    with other[of e] have "e \<in> set (page_table s)" "snd e \<noteq> f" by (auto simp: s')
    with assms(1) show "snd e < pool_size s' \<and> page_id (pages s' ! snd e) = fst e"
      by (auto simp: wf_pool_def s')
  qed
  have c7: "\<forall>g < pool_size s'. 0 \<le> pin_count (pages s' ! g)"
  proof (intro allI impI)
    fix g assume "g < pool_size s'"
    with assms(1) f(3) show "0 \<le> pin_count (pages s' ! g)"
      by (cases "g = f") (auto simp: wf_pool_def s' reset_Page_def ResetMemory_def)
  qed
  have "length (pages s') = pool_size s'" "\<forall>g \<in> set (free_list s'). g < pool_size s'"
    "\<forall>g \<in> set (replacer_list (replacer s')). g < pool_size s'"
    "0 < num_instances s'" "0 \<le> next_page_id s'"
    "next_page_id s' mod int (num_instances s') = int (instance_index s')"
    using assms(1) f(2) by (auto simp: wf_pool_def s')
  with c4 c6 c7 dist show ?thesis
    unfolding wf_pool_def by blast
qed

lemma wf_FlushPgImp: "wf_pool s \<Longrightarrow> wf_pool (snd (FlushPgImp pid s))"
proof (cases "map_of (page_table s) pid")
  case None
  assume "wf_pool s"
  with None show ?thesis by (simp add: FlushPgImp_def)
next
  case (Some f)
  assume w: "wf_pool s"
  show ?thesis
  proof (cases "pid = INVALID_PAGE_ID")
    case True
    with w Some show ?thesis by (simp add: FlushPgImp_def)
  next
    case False
    with Some show ?thesis
      by (simp add: FlushPgImp_def) (rule wf_evict[OF w Some], simp_all)
  qed
qed

lemma wf_DeallocatePage: "wf_pool s \<Longrightarrow> wf_pool (DeallocatePage pid s)"
  by (simp add: wf_pool_def DeallocatePage_def)

lemma wf_DeletePgImp: "wf_pool s \<Longrightarrow> wf_pool (snd (DeletePgImp pid s))"
proof -
  assume w: "wf_pool s"
  let ?s = "DeallocatePage pid s"
  have w': "wf_pool ?s" using w by (rule wf_DeallocatePage)
  show ?thesis
  proof (cases "map_of (page_table ?s) pid")
    case None
    with w' show ?thesis by (simp add: DeletePgImp_def Let_def)
  next
    case (Some f)
    show ?thesis
    proof (cases "pin_count (pages ?s ! f) = 0")
      case False
      with w' Some show ?thesis by (simp add: DeletePgImp_def Let_def)
    next
      case True
      with Some show ?thesis
        by (simp add: DeletePgImp_def Let_def) (rule wf_evict[OF w' Some], simp_all)
    qed
  qed
qed

lemma flush_entries_length: "length (fst (flush_entries pt ps d)) = length ps"
  by (induction pt arbitrary: ps d) auto

lemma flush_entries_clean:
  "g < length ps \<Longrightarrow> is_dirty (fst (flush_entries pt ps d) ! g) \<Longrightarrow>
   is_dirty (ps ! g) \<and> g \<notin> snd ` set pt"
proof (induction pt arbitrary: ps d)
  case Nil
  then show ?case by simp
next
  case (Cons e pt)
  from Cons.prems Cons.IH[of "ps[snd e := reset_Page (ps ! snd e)]" "write_if_dirty (fst e) (ps ! snd e) d"]
  have *: "is_dirty (ps[snd e := reset_Page (ps ! snd e)] ! g)" "g \<notin> snd ` set pt" by auto
  from * Cons.prems(1) have "g \<noteq> snd e"
    by (auto simp: reset_Page_def ResetMemory_def)
  with * show ?case by auto
qed

lemma flush_entries_pin_count:
  "g < length ps \<Longrightarrow> 0 \<le> pin_count (ps ! g) \<Longrightarrow> 0 \<le> pin_count (fst (flush_entries pt ps d) ! g)"
proof (induction pt arbitrary: ps d)
  case Nil
  then show ?case by simp
next
  case (Cons e pt)
  have "0 \<le> pin_count (ps[snd e := reset_Page (ps ! snd e)] ! g)"
    using Cons.prems by (cases "g = snd e") (auto simp: reset_Page_def ResetMemory_def)
  with Cons.prems(1) Cons.IH[of "ps[snd e := reset_Page (ps ! snd e)]"] show ?case by simp
qed

lemma wf_FlushAllPgsImp: "wf_pool s \<Longrightarrow> wf_pool (FlushAllPgsImp s)"
proof -
  assume w: "wf_pool s"
  have c6: "\<forall>g < pool_size s. \<not> is_dirty (fst (flush_entries (page_table s) (pages s) (disk_manager s)) ! g)"
  proof (intro allI impI notI)
    fix g assume g: "g < pool_size s"
      "is_dirty (fst (flush_entries (page_table s) (pages s) (disk_manager s)) ! g)"
    with w have "g < length (pages s)" by (simp add: wf_pool_def)
    from flush_entries_clean[OF this g(2)] g(1) w show False by (auto simp: wf_pool_def)
  qed
  have c7: "\<forall>g < pool_size s. 0 \<le> pin_count (fst (flush_entries (page_table s) (pages s) (disk_manager s)) ! g)"
    using w by (auto simp: wf_pool_def intro: flush_entries_pin_count)
  show ?thesis
    unfolding wf_pool_def using c6 c7 w
    by (simp add: FlushAllPgsImp_def flush_entries_length) (simp add: wf_pool_def)
qed

lemma nth_data_update:
  "page_id (ps[f := (ps ! f)\<lparr>data := x\<rparr>] ! g) = page_id (ps ! g)"
  "is_dirty (ps[f := (ps ! f)\<lparr>data := x\<rparr>] ! g) = is_dirty (ps ! g)"
  "pin_count (ps[f := (ps ! f)\<lparr>data := x\<rparr>] ! g) = pin_count (ps ! g)"
  by (cases "f < length ps"; cases "g = f"; simp add: list_update_beyond)+

lemma wf_pool_data_update:
  "wf_pool s \<Longrightarrow> wf_pool (s\<lparr>pages := (pages s)[f := (pages s ! f)\<lparr>data := x\<rparr>]\<rparr>)"
  by (simp add: wf_pool_def nth_data_update)

lemma wf_write_data: "wf_pool s \<Longrightarrow> wf_pool (write_data f bs s)"
  unfolding write_data_def by (rule wf_pool_data_update)

lemma wf_new_BufferPoolManagerInstance:
  assumes "new_BufferPoolManagerInstance n m k d = Inr s"
  shows "wf_pool s"
proof -
  from assms have m: "0 < m" "k < m" and
    s: "s = \<lparr>pool_size = n, num_instances = m, instance_index = k,
                next_page_id = int k, pages = replicate n new_Page, page_table = [],
                free_list = [0..<n], replacer = new_LRUReplacer n, disk_manager = d\<rparr>"
    by (auto simp: new_BufferPoolManagerInstance_def split: if_splits)
  show ?thesis
    using m by (simp add: s wf_pool_def new_Page_def new_LRUReplacer_def)
qed

text \<open>
  A fresh pool is well-formed, every request keeps a pool well-formed, and in a well-formed
  pool no request stops on an error: neither the uninitialised \<open>origin_id\<close> of
  \<open>NewPgImp\<close> nor the assertion of \<open>AllocatePage\<close> is ever reached.
\<close>

lemma wf_step: "wf_pool s \<Longrightarrow> step q s = Inr (r, s') \<Longrightarrow> wf_pool s'"
proof (cases q)
  case NewPage
  assume "wf_pool s" "step q s = Inr (r, s')"
  with NewPage show ?thesis by (auto split: sum.splits dest: wf_NewPgImp)
qed (auto simp: wf_FetchPgImp wf_UnpinPgImp wf_FlushPgImp wf_FlushAllPgsImp
      wf_DeletePgImp wf_write_data)

lemma step_no_error: "wf_pool s \<Longrightarrow> \<exists>r s'. step q s = Inr (r, s')"
  using NewPgImp_no_error[of s] by (cases q) auto

lemma wf_run: "wf_pool s \<Longrightarrow> run qs s = Inr (rs, s') \<Longrightarrow> wf_pool s'"
proof (induction qs arbitrary: s rs)
  case Nil
  then show ?case by simp
next
  case (Cons q qs)
  from Cons.prems(2) obtain r s1 rs1 where 1: "step q s = Inr (r, s1)" and 2: "run qs s1 = Inr (rs1, s')"
    by (auto split: sum.splits)
  from wf_step[OF Cons.prems(1) 1] have "wf_pool s1" .
  from Cons.IH[OF this 2] show ?case .
qed

lemma run_no_error: "wf_pool s \<Longrightarrow> \<exists>rs s'. run qs s = Inr (rs, s')"
proof (induction qs arbitrary: s)
  case Nil
  then show ?case by simp
next
  case (Cons q qs)
  from step_no_error[OF Cons.prems, of q] obtain r s1 where s1: "step q s = Inr (r, s1)" by auto
  from wf_step[OF Cons.prems s1] Cons.IH[of s1] obtain rs s' where "run qs s1 = Inr (rs, s')" by auto
  with s1 show ?case by simp
qed

lemma map_of_erase_key: "map_of (erase_key k pt) q = (if q = k then None else map_of pt q)"
  by (induction pt) (auto simp: erase_key_def)

lemma reset_Page_fields:
  "page_id (reset_Page p) = INVALID_PAGE_ID" "pin_count (reset_Page p) = 0"
  "\<not> is_dirty (reset_Page p)" "data (reset_Page p) = replicate (length (data p)) 0"
  by (simp_all add: reset_Page_def ResetMemory_def map_replicate_const)

lemma FetchPgImp_hit:
  "map_of (page_table s) pid = Some f \<Longrightarrow>
   FetchPgImp pid s =
     (Some f,
      s\<lparr>pages := (pages s)[f := (pages s ! f)\<lparr>pin_count := pin_count (pages s ! f) + 1\<rparr>],
        replacer := Pin f (replacer s)\<rparr>)"
  by (simp add: FetchPgImp_def)



lemma distinct_fst_Cons: "distinct (map fst (a # pt)) \<Longrightarrow> e \<in> set pt \<Longrightarrow> fst e \<noteq> fst a"
  by (metis distinct.simps(2) imageI list.simps(9) set_map)






lemma pinned_num_eq:
  "pinned_num s = pool_size s \<longleftrightarrow>
   (\<forall>i < pool_size s. page_id (pages s ! i) \<noteq> INVALID_PAGE_ID \<and> pin_count (pages s ! i) \<noteq> 0)"
proof -
  let ?P = "\<lambda>i. page_id (pages s ! i) \<noteq> INVALID_PAGE_ID \<and> pin_count (pages s ! i) \<noteq> 0"
  have "length (filter ?P [0..<pool_size s]) = length [0..<pool_size s] \<longleftrightarrow>
        (\<forall>i \<in> set [0..<pool_size s]. ?P i)"
  proof
    assume eq: "length (filter ?P [0..<pool_size s]) = length [0..<pool_size s]"
    show "\<forall>i \<in> set [0..<pool_size s]. ?P i"
    proof (rule ccontr)
      assume "\<not> (\<forall>i \<in> set [0..<pool_size s]. ?P i)"
      then obtain i where "i \<in> set [0..<pool_size s]" "\<not> ?P i" by blast
      then have "length (filter ?P [0..<pool_size s]) < length [0..<pool_size s]"
        by (rule length_filter_less)
      with eq show False by simp
    qed
  next
    assume "\<forall>i \<in> set [0..<pool_size s]. ?P i"
    then have "filter ?P [0..<pool_size s] = [0..<pool_size s]" by (simp add: filter_id_conv)
    then show "length (filter ?P [0..<pool_size s]) = length [0..<pool_size s]" by simp
  qed
  then show ?thesis by (auto simp: pinned_num_def)
qed

lemma dirty_frame_entry:
  assumes "wf_pool s" and "f < pool_size s" and "is_dirty (pages s ! f)"
  shows "(page_id (pages s ! f), f) \<in> set (page_table s)"
proof -
  from assms obtain e where e: "e \<in> set (page_table s)" "snd e = f" by (auto simp: wf_pool_def)
  with assms(1) have "fst e = page_id (pages s ! f)" by (auto simp: wf_pool_def)
  with e(2) have "e = (page_id (pages s ! f), f)" by (simp add: prod_eq_iff)
  with e(1) show ?thesis by simp
qed

lemma erased_key_gone:
  assumes "wf_pool s" and "(p, f) \<in> set (page_table s)"
  shows "p \<notin> fst ` set (snd (erase_frame f (page_table s)))"
proof
  assume "p \<in> fst ` set (snd (erase_frame f (page_table s)))"
  then obtain e where e: "e \<in> set (snd (erase_frame f (page_table s)))" "fst e = p" by auto
  from assms(1) have d: "distinct (map fst (page_table s))" by (simp add: wf_pool_def)
  have "f \<notin> snd ` set (snd (erase_frame f (page_table s)))"
    using assms(1) d by (intro erase_frame_gone[where p = "page_id (pages s ! f)"]) (auto simp: wf_pool_def)
  with e(1) have ne: "snd e \<noteq> f" by auto
  from e(1) erase_frame_subset have in_pt: "e \<in> set (page_table s)" by auto
  from d in_pt have "map_of (page_table s) (fst e) = Some (snd e)" by (cases e) simp
  moreover from d assms(2) have "map_of (page_table s) p = Some f" by simp
  ultimately show False using e(2) ne by simp
qed

lemma fetch_miss_reads_disk:
  assumes "wf_pool s" and "map_of (page_table s) p = None" and "fst (FetchPgImp p s) = Some g"
  shows "data (pages (snd (FetchPgImp p s)) ! g) = contents (disk_manager s) p"
proof -
  from assms(2,3) obtain s1 where fv: "find_victim s = Some (g, s1)"
    by (auto simp: FetchPgImp_def split: option.splits)
  note s1 = find_victim_Some[OF fv]
  from wf_find_victim[OF assms(1) fv] have g: "g < pool_size s" "g < length (pages s)"
    using assms(1) by (auto simp: wf_pool_def)
  have keep: "contents (write_if_dirty (page_id (pages s ! g)) (pages s ! g) (disk_manager s)) p
      = contents (disk_manager s) p"
  proof (cases "is_dirty (pages s ! g)")
    case False
    then show ?thesis by (simp add: write_if_dirty_def)
  next
    case True
    from dirty_frame_entry[OF assms(1) g(1) True] have "page_id (pages s ! g) \<in> fst ` set (page_table s)"
      by force
    moreover from assms(2) have "p \<notin> fst ` set (page_table s)" by (simp add: map_of_eq_None_iff)
    ultimately have "page_id (pages s ! g) \<noteq> p" by auto
    then show ?thesis by (simp add: write_if_dirty_def WritePage_def)
  qed
  show ?thesis
    using assms(2) fv g(2) keep
    by (simp add: FetchPgImp_def install_page_def ReadPage_def s1)
qed

section \<open>The example states are reached\<close>

lemma wf_run_fresh: "run_fresh n d qs = Inr (rs, s) \<Longrightarrow> wf_pool s"
  by (auto simp: run_fresh_def split: sum.splits dest: wf_new_BufferPoolManagerInstance wf_run)

lemma pool_A_reached: "run_fresh 1 blank_disk [NewPage] = Inr ([RNew (Some (0, 0))], pool_A)"
  by (simp add: bpm_defs pool_A_def)

lemma pool_B_reached:
  "run_fresh 1 blank_disk [NewPage, WriteData 0 [120], UnpinPage 0 True] =
     Inr ([RNew (Some (0, 0)), RUnit, RBool True], pool_B)"
  by (simp add: bpm_defs pool_B_def take_PAGE_SIZE_Cons)

lemma pool_C_reached:
  "run_fresh 2 blank_disk [NewPage, NewPage, WriteData 0 [120], UnpinPage 0 True, UnpinPage 1 False] =
     Inr ([RNew (Some (0, 0)), RNew (Some (1, 1)), RUnit, RBool True, RBool True], pool_C)"
  by (simp add: bpm_defs pool_C_def take_PAGE_SIZE_Cons upt_0_2 replicate_2)

lemma wf_pool_A: "wf_pool pool_A" using pool_A_reached by (rule wf_run_fresh)
lemma wf_pool_B: "wf_pool pool_B" using pool_B_reached by (rule wf_run_fresh)
lemma wf_pool_C: "wf_pool pool_C" using pool_C_reached by (rule wf_run_fresh)

section \<open>Pinned frames and the replacer\<close>

text \<open>
  Claim C1 (a frame whose pin count is greater than 0 is never selected as an eviction
  victim, in particular not after a second \<open>FetchPage\<close> and a single \<open>UnpinPage\<close>): the
  code does not keep it. \<open>UnpinPgImp\<close> hands the frame to the replacer whenever it
  decrements the pin count, also when the count stays positive.

  First run, one frame: \<open>NewPage\<close> gives page 0 in frame 0 (pin count 1), \<open>FetchPage 0\<close>
  raises the pin count to 2, \<open>UnpinPage 0\<close> lowers it to 1. \<open>FetchPage 1\<close> then takes
  frame 0 as its victim: the frame holds page 1 afterwards and page 0 is no longer mapped.

  Second run, two frames: pages 0 and 1 are created, page 0 is fetched again and unpinned
  once (pin count 1), page 1 is unpinned (pin count 0). \<open>NewPage\<close> then evicts the frame of
  page 0, still pinned, and gives it to the new page 2.
\<close>

theorem pinned_frame_is_evicted:
  "(case run_fresh 1 blank_disk [NewPage, FetchPage 0, UnpinPage 0 False] of
      Inl e \<Rightarrow> False
    | Inr (rs, s) \<Rightarrow>
        rs = [RNew (Some (0, 0)), RFrame (Some 0), RBool True] \<and>
        page_id (pages s ! 0) = 0 \<and> pin_count (pages s ! 0) = 1 \<and>
        fst (FetchPgImp 1 s) = Some 0 \<and>
        page_id (pages (snd (FetchPgImp 1 s)) ! 0) = 1 \<and>
        map_of (page_table (snd (FetchPgImp 1 s))) 0 = None) \<and>
   (case run_fresh 2 blank_disk
           [NewPage, NewPage, FetchPage 0, UnpinPage 0 False, UnpinPage 1 False] of
      Inl e \<Rightarrow> False
    | Inr (rs, s) \<Rightarrow>
        page_id (pages s ! 0) = 0 \<and> pin_count (pages s ! 0) = 1 \<and>
        (case NewPgImp s of
           Inr (Some (f, p), s') \<Rightarrow>
             f = 0 \<and> p = 2 \<and> page_id (pages s' ! 0) = 2 \<and> map_of (page_table s') 0 = None
         | _ \<Rightarrow> False))"
  by (simp add: bpm_defs upt_0_2 replicate_2)

text \<open>
  Claim C2 (\<open>UnpinPage\<close> calls \<open>Replacer.Unpin\<close> only when the decremented pin count is
  0): the code calls it unconditionally. With page 0 pinned twice and the replacer empty,
  \<open>UnpinPage 0\<close> returns true, leaves the pin count at 1, and the replacer holds frame 0.
\<close>

theorem unpin_makes_pinned_frame_evictable:
  "(case run_fresh 1 blank_disk [NewPage, FetchPage 0] of
      Inl e \<Rightarrow> False
    | Inr (rs, s) \<Rightarrow>
        pin_count (pages s ! 0) = 2 \<and> replacer_list (replacer s) = [] \<and>
        fst (UnpinPgImp 0 False s) = True \<and>
        pin_count (pages (snd (UnpinPgImp 0 False s)) ! 0) = 1 \<and>
        replacer_list (replacer (snd (UnpinPgImp 0 False s))) = [0] \<and>
        fst (Victim (replacer (snd (UnpinPgImp 0 False s)))) = Some 0)"
  by (simp add: bpm_defs)

text \<open>
  What \<open>UnpinPgImp\<close> does in full: nothing, returning false, when the page is not
  resident or its pin count is not positive; otherwise it decrements the pin count, sets
  the dirty flag when asked to (it never clears it), hands the frame to the replacer, and
  returns true.
\<close>

lemma UnpinPgImp_effect:
  "(map_of (page_table s) pid = None \<longrightarrow> UnpinPgImp pid dirty s = (False, s)) \<and>
   (\<forall>f. map_of (page_table s) pid = Some f \<and> pin_count (pages s ! f) \<le> 0 \<longrightarrow>
      UnpinPgImp pid dirty s = (False, s)) \<and>
   (\<forall>f. map_of (page_table s) pid = Some f \<and> 0 < pin_count (pages s ! f) \<longrightarrow>
      UnpinPgImp pid dirty s =
        (True,
         s\<lparr>pages := (pages s)[f := (pages s ! f)
                \<lparr>pin_count := pin_count (pages s ! f) - 1,
                 is_dirty := (dirty \<or> is_dirty (pages s ! f))\<rparr>],
           replacer := Unpin f (replacer s)\<rparr>))"
  by (auto simp: UnpinPgImp_def)

section \<open>Flushing\<close>




section \<open>The replacer invariant\<close>

text \<open>
  Claim C4 (after every operation, every frame id held by the replacer is in the range of
  the page table and its frame has pin count 0): the code does not keep it. After
  \<open>NewPage\<close>, \<open>FetchPage 0\<close>, \<open>UnpinPage 0\<close> the replacer holds frame 0, whose pin
  count is 1. After \<open>NewPage\<close>, \<open>UnpinPage 0\<close>, \<open>DeletePage 0\<close> the replacer still
  holds frame 0, which is on the free list and in no page-table entry: \<open>DeletePgImp\<close>
  never tells the replacer.
\<close>

theorem replacer_holds_pinned_and_free_frames:
  "(case run_fresh 1 blank_disk [NewPage, FetchPage 0, UnpinPage 0 False] of
      Inl e \<Rightarrow> False
    | Inr (rs, s) \<Rightarrow>
        replacer_list (replacer s) = [0] \<and> pin_count (pages s ! 0) = 1) \<and>
   (case run_fresh 1 blank_disk [NewPage, UnpinPage 0 False, DeletePage 0] of
      Inl e \<Rightarrow> False
    | Inr (rs, s) \<Rightarrow>
        rs = [RNew (Some (0, 0)), RBool True, RBool True] \<and>
        replacer_list (replacer s) = [0] \<and> page_table s = [] \<and> free_list s = [0])"
  by (simp add: bpm_defs)

section \<open>New pages\<close>

text \<open>
  Claim C5 (the buffer of a frame returned by \<open>NewPage\<close> is all zero bytes and no disk
  read is issued for the new page id): the code zeroes the buffer and then calls
  \<open>ReadPage\<close> for the new page id, which overwrites it. Here page 0 is fetched, the byte
  120 is stored at the start of its buffer, and the page is unpinned dirty and flushed, so
  the disk holds it. \<open>NewPage\<close> then allocates page id 0: it returns frame 0 with pin
  count 1, the last disk request is a read of page 0, and the buffer starts with the byte
  120.
\<close>

theorem new_page_reads_disk:
  "(case run_fresh 1 blank_disk
           [FetchPage 0, WriteData 0 [120], UnpinPage 0 True, FlushPage 0] of
      Inl e \<Rightarrow> False
    | Inr (rs, s) \<Rightarrow>
        (case NewPgImp s of
           Inr (Some (f, p), s') \<Rightarrow>
             f = 0 \<and> p = 0 \<and> pin_count (pages s' ! 0) = 1 \<and>
             io_log (disk_manager s') = io_log (disk_manager s) @ [DiskRead 0] \<and>
             data (pages s' ! 0) ! 0 = 120 \<and>
             data (pages s' ! 0) \<noteq> replicate PAGE_SIZE 0
         | _ \<Rightarrow> False))"
  by (simp add: bpm_defs take_PAGE_SIZE_Cons Cons_replicate_eq)

section \<open>The sharded pool's NewPage\<close>

text \<open>
  Claim C6 (the sharded \<open>NewPage\<close> keeps a rotating cursor, so that consecutive
  successful calls start their probe at successive shards): the code has no cursor; every
  call starts at shard 0. With two shards of two frames each, the first \<open>NewPage\<close>
  returns page id 0 and the second returns page id 2, both allocated by shard 0; a
  rotating start would have given page id 1, from shard 1, to the second call.
\<close>

theorem sharded_new_page_always_starts_at_shard_0:
  "(case new_ParallelBufferPoolManager 2 2 blank_disk of
      Inl e \<Rightarrow> False
    | Inr P0 \<Rightarrow>
        (case par_NewPgImp P0 of
           Inr (Some (f1, p1), P1) \<Rightarrow>
             p1 = 0 \<and>
             (case par_NewPgImp P1 of
                Inr (Some (f2, p2), P2) \<Rightarrow>
                  p2 = 2 \<and> map next_page_id (buffer_pool_manager P2) = [4, 1]
              | _ \<Rightarrow> False)
         | _ \<Rightarrow> False))"
  by (simp add: bpm_defs par_defs upt_0_2 replicate_2)

section \<open>No frame available\<close>

text \<open>
  When the code returns null. For a well-formed pool, \<open>NewPgImp\<close> returns (it does not
  stop on an error), and it returns null exactly when every frame holds a page and has a
  non-zero pin count (its gate, before it looks for a frame), or the free list and the
  replacer are both empty; \<open>FetchPgImp\<close> of a non-resident page returns null exactly
  when the free list and the replacer are both empty. A call that returns null changes
  nothing.
\<close>

theorem no_frame_available:
  assumes "wf_pool s"
  shows "(\<exists>r s'. NewPgImp s = Inr (r, s') \<and>
            (r = None \<longleftrightarrow>
               (\<forall>i < pool_size s. page_id (pages s ! i) \<noteq> INVALID_PAGE_ID \<and> pin_count (pages s ! i) \<noteq> 0) \<or>
               (free_list s = [] \<and> replacer_list (replacer s) = [])) \<and>
            (r = None \<longrightarrow> s' = s)) \<and>
         (map_of (page_table s) pid = None \<longrightarrow>
            (fst (FetchPgImp pid s) = None \<longleftrightarrow> free_list s = [] \<and> replacer_list (replacer s) = []) \<and>
            (fst (FetchPgImp pid s) = None \<longrightarrow> snd (FetchPgImp pid s) = s))"
proof (intro conjI impI)
  show "\<exists>r s'. NewPgImp s = Inr (r, s') \<and>
            (r = None \<longleftrightarrow>
               (\<forall>i < pool_size s. page_id (pages s ! i) \<noteq> INVALID_PAGE_ID \<and> pin_count (pages s ! i) \<noteq> 0) \<or>
               (free_list s = [] \<and> replacer_list (replacer s) = [])) \<and>
            (r = None \<longrightarrow> s' = s)"
  proof (cases "find_victim s")
    case None
    then have "free_list s = [] \<and> replacer_list (replacer s) = []" by (simp add: find_victim_None)
    with None show ?thesis by (simp add: NewPgImp_wf_eq[OF assms])
  next
    case (Some a)
    then have "\<not> (free_list s = [] \<and> replacer_list (replacer s) = [])"
      using find_victim_None[of s] by simp
    with Some show ?thesis
      by (cases a) (simp add: NewPgImp_wf_eq[OF assms] pinned_num_eq)
  qed
next
  assume "map_of (page_table s) pid = None"
  then show "fst (FetchPgImp pid s) = None \<longleftrightarrow> free_list s = [] \<and> replacer_list (replacer s) = []"
    using find_victim_None[of s] by (auto simp: FetchPgImp_def split: option.splits)
next
  assume "map_of (page_table s) pid = None" "fst (FetchPgImp pid s) = None"
  then show "snd (FetchPgImp pid s) = s"
    by (auto simp: FetchPgImp_def split: option.splits)
qed

theorem no_frame_available_witness:
  "wf_pool pool_A \<and> map_of (page_table pool_A) 1 = None \<and>
   page_id (pages pool_A ! 0) \<noteq> INVALID_PAGE_ID \<and> pin_count (pages pool_A ! 0) \<noteq> 0 \<and>
   free_list pool_A = [] \<and> replacer_list (replacer pool_A) = [] \<and>
   NewPgImp pool_A = Inr (None, pool_A) \<and>
   FetchPgImp 1 pool_A = (None, pool_A) \<and>
   wf_pool pool_B \<and> replacer_list (replacer pool_B) = [0] \<and> pin_count (pages pool_B ! 0) = 0 \<and>
   map_of (page_table pool_B) 1 = None \<and>
   (\<exists>s'. NewPgImp pool_B = Inr (Some (0, 1), s')) \<and>
   fst (FetchPgImp 1 pool_B) = Some 0"
proof -
  have a: "map_of (page_table pool_A) 1 = None" "page_id (pages pool_A ! 0) \<noteq> INVALID_PAGE_ID"
    "pin_count (pages pool_A ! 0) \<noteq> 0" "free_list pool_A = []" "replacer_list (replacer pool_A) = []"
    "pool_size pool_A = 1"
    by (simp_all add: pool_A_def INVALID_PAGE_ID_def)
  have b: "replacer_list (replacer pool_B) = [0]" "pin_count (pages pool_B ! 0) = 0"
    "map_of (page_table pool_B) 1 = None" "pool_size pool_B = 1"
    by (simp_all add: pool_B_def)
  from no_frame_available[OF wf_pool_A, of 1] a
  have A: "NewPgImp pool_A = Inr (None, pool_A)" "FetchPgImp 1 pool_A = (None, pool_A)"
    by (auto simp: prod_eq_iff)
  from no_frame_available[OF wf_pool_B, of 1] b
  have B: "\<exists>r s'. NewPgImp pool_B = Inr (Some r, s')" "\<exists>g. fst (FetchPgImp 1 pool_B) = Some g"
    by auto
  have B': "\<exists>s'. NewPgImp pool_B = Inr (Some (0, 1), s')" "fst (FetchPgImp 1 pool_B) = Some 0"
    by (simp_all add: pool_B_def bpm_defs)
  from wf_pool_A wf_pool_B a b A B' show ?thesis by simp
qed

text \<open>
  Where the replacer holds only resident frames with pin count 0 and the free list only
  frames without a page, the gate of \<open>NewPgImp\<close> adds nothing: there \<open>NewPgImp\<close>, like
  \<open>FetchPgImp\<close> of a non-resident page, returns null exactly when the free list and the
  replacer are both empty.
\<close>

lemma null_iff_nothing_available:
  assumes "wf_pool s"
    and repl: "\<forall>f \<in> set (replacer_list (replacer s)).
                 f \<in> snd ` set (page_table s) \<and> pin_count (pages s ! f) = 0"
    and free: "\<forall>f \<in> set (free_list s).
                 page_id (pages s ! f) = INVALID_PAGE_ID \<and> pin_count (pages s ! f) = 0"
  shows "(\<exists>r s'. NewPgImp s = Inr (r, s') \<and>
            (r = None \<longleftrightarrow> free_list s = [] \<and> replacer_list (replacer s) = [])) \<and>
         (map_of (page_table s) pid = None \<longrightarrow>
            (fst (FetchPgImp pid s) = None \<longleftrightarrow>
               free_list s = [] \<and> replacer_list (replacer s) = []))"
proof -
  have gate: "free_list s = [] \<and> replacer_list (replacer s) = []"
    if all: "\<forall>i < pool_size s. page_id (pages s ! i) \<noteq> INVALID_PAGE_ID \<and> pin_count (pages s ! i) \<noteq> 0"
  proof (rule conjI)
    show "free_list s = []"
    proof (rule ccontr)
      assume "free_list s \<noteq> []"
      then obtain f where f: "f \<in> set (free_list s)" by (cases "free_list s") auto
      with assms(1) have "f < pool_size s" by (simp add: wf_pool_def)
      with all free f show False by auto
    qed
    show "replacer_list (replacer s) = []"
    proof (rule ccontr)
      assume "replacer_list (replacer s) \<noteq> []"
      then obtain f where f: "f \<in> set (replacer_list (replacer s))"
        by (cases "replacer_list (replacer s)") auto
      with assms(1) have "f < pool_size s" by (simp add: wf_pool_def)
      with all repl f show False by auto
    qed
  qed
  from no_frame_available[OF assms(1), of pid] gate show ?thesis by blast
qed

text \<open>
  Claim C7 (\<open>NewPage\<close> returns null exactly when the free list is empty and the replacer
  holds no victim, that is, when every frame is resident and pinned; \<open>FetchPage\<close> of a
  non-resident page returns null under the same condition; otherwise both succeed): the
  code does not keep it. After \<open>NewPage\<close>, \<open>FetchPage 0\<close>, \<open>UnpinPage 0\<close> on a pool of
  one frame, the only frame holds page 0 with pin count 1 and the free list is empty, so
  every frame is resident and pinned; but \<open>UnpinPgImp\<close> has handed the frame to the
  replacer, which holds it as its victim. \<open>NewPgImp\<close> returns null and changes nothing,
  while \<open>FetchPgImp\<close> of the non-resident page 1 does not return null in the same
  state: it returns frame 0, evicting the pinned page 0.
\<close>

theorem new_page_null_with_victim_in_replacer:
  "(case run_fresh 1 blank_disk [NewPage, FetchPage 0, UnpinPage 0 False] of
      Inl e \<Rightarrow> False
    | Inr (rs, s) \<Rightarrow>
        pool_size s = 1 \<and> page_id (pages s ! 0) = 0 \<and> pin_count (pages s ! 0) = 1 \<and>
        free_list s = [] \<and> replacer_list (replacer s) = [0] \<and>
        fst (Victim (replacer s)) = Some 0 \<and>
        map_of (page_table s) 1 = None \<and>
        NewPgImp s = Inr (None, s) \<and>
        fst (FetchPgImp 1 s) = Some 0 \<and>
        page_id (pages (snd (FetchPgImp 1 s)) ! 0) = 1 \<and>
        map_of (page_table (snd (FetchPgImp 1 s))) 0 = None)"
  by (simp add: bpm_defs)

section \<open>Eviction durability\<close>

text \<open>
  Claim C8 (a dirty frame displaced by victim selection is written to disk at the frame's
  own page id before the frame is reused, so that a later \<open>FetchPage\<close> of the displaced
  page reads the written bytes back). In a well-formed pool, let victim selection give the
  dirty frame \<open>f\<close>. Then \<open>FetchPgImp\<close> of a non-resident page, and \<open>NewPgImp\<close> when
  its all-pinned gate is open, return frame \<open>f\<close>; the disk trace grows by exactly a write
  of the frame's old buffer at the frame's old page id followed by the read of the incoming
  page; the disk holds the old buffer at the old page id; and a \<open>FetchPgImp\<close> of the
  displaced page id right afterwards, whenever it returns a frame, returns one whose buffer
  is the old buffer.
\<close>

theorem dirty_victim_written_back:
  assumes "wf_pool s" and "find_victim s = Some (f, s1)" and "is_dirty (pages s ! f)"
  shows
   "(map_of (page_table s) pid = None \<longrightarrow>
       fst (FetchPgImp pid s) = Some f \<and>
       io_log (disk_manager (snd (FetchPgImp pid s))) =
         io_log (disk_manager s) @
           [DiskWrite (page_id (pages s ! f)) (data (pages s ! f)), DiskRead pid] \<and>
       contents (disk_manager (snd (FetchPgImp pid s))) (page_id (pages s ! f)) = data (pages s ! f) \<and>
       (\<forall>g. fst (FetchPgImp (page_id (pages s ! f)) (snd (FetchPgImp pid s))) = Some g \<longrightarrow>
            data (pages (snd (FetchPgImp (page_id (pages s ! f)) (snd (FetchPgImp pid s)))) ! g)
              = data (pages s ! f))) \<and>
    (pinned_num s \<noteq> pool_size s \<longrightarrow>
       (\<exists>s'. NewPgImp s = Inr (Some (f, next_page_id s), s') \<and>
          io_log (disk_manager s') =
            io_log (disk_manager s) @
              [DiskWrite (page_id (pages s ! f)) (data (pages s ! f)), DiskRead (next_page_id s)] \<and>
          contents (disk_manager s') (page_id (pages s ! f)) = data (pages s ! f) \<and>
          (\<forall>g. fst (FetchPgImp (page_id (pages s ! f)) s') = Some g \<longrightarrow>
               data (pages (snd (FetchPgImp (page_id (pages s ! f)) s')) ! g) = data (pages s ! f))))"
proof -
  let ?old = "page_id (pages s ! f)"
  let ?erased = "snd (erase_frame f (page_table s))"
  let ?d1 = "write_if_dirty ?old (pages s ! f) (disk_manager s)"
  note fv = find_victim_Some[OF assms(2)]
  from wf_find_victim[OF assms(1,2)] have f: "f < pool_size s" "f < length (pages s)"
    using assms(1) by (auto simp: wf_pool_def)
  from dirty_frame_entry[OF assms(1) f(1) assms(3)] have entry: "(?old, f) \<in> set (page_table s)" .
  from erased_key_gone[OF assms(1) entry] have gone: "?old \<notin> fst ` set ?erased" .
  have d1: "io_log ?d1 = io_log (disk_manager s) @ [DiskWrite ?old (data (pages s ! f))]"
    "contents ?d1 ?old = data (pages s ! f)"
    using assms(3) by (simp_all add: write_if_dirty_def WritePage_def)
  have keys: "fst ` set (emplace q f ?erased) \<subseteq> insert q (fst ` set ?erased)" for q
    using set_emplace[of q f ?erased] by force
  have fetch: "fst (FetchPgImp pid s) = Some f \<and>
       io_log (disk_manager (snd (FetchPgImp pid s))) =
         io_log (disk_manager s) @ [DiskWrite ?old (data (pages s ! f)), DiskRead pid] \<and>
       contents (disk_manager (snd (FetchPgImp pid s))) ?old = data (pages s ! f) \<and>
       (\<forall>g. fst (FetchPgImp ?old (snd (FetchPgImp pid s))) = Some g \<longrightarrow>
            data (pages (snd (FetchPgImp ?old (snd (FetchPgImp pid s)))) ! g) = data (pages s ! f))"
    if miss: "map_of (page_table s) pid = None"
  proof -
    let ?s' = "snd (FetchPgImp pid s)"
    have s': "?s' = install_page pid f ?erased ?d1 s1" "fst (FetchPgImp pid s) = Some f"
      using miss assms(2) by (simp_all add: FetchPgImp_def fv)
    have w': "wf_pool ?s'" using assms(1) by (rule wf_FetchPgImp)
    have log: "io_log (disk_manager ?s') = io_log (disk_manager s) @ [DiskWrite ?old (data (pages s ! f)), DiskRead pid]"
      "contents (disk_manager ?s') ?old = data (pages s ! f)"
      by (simp_all add: s' install_page_def ReadPage_def d1)
    from miss entry have "?old \<noteq> pid" by (auto simp: map_of_eq_None_iff image_iff)
    with gone keys[of pid] have "?old \<notin> fst ` set (page_table ?s')"
      by (auto simp: s' install_page_def)
    then have miss': "map_of (page_table ?s') ?old = None" by (simp add: map_of_eq_None_iff)
    have "data (pages (snd (FetchPgImp ?old ?s')) ! g) = data (pages s ! f)"
      if "fst (FetchPgImp ?old ?s') = Some g" for g
      using fetch_miss_reads_disk[OF w' miss' that] log(2) by simp
    with s'(2) log show ?thesis by blast
  qed
  have new: "\<exists>s'. NewPgImp s = Inr (Some (f, next_page_id s), s') \<and>
          io_log (disk_manager s') =
            io_log (disk_manager s) @ [DiskWrite ?old (data (pages s ! f)), DiskRead (next_page_id s)] \<and>
          contents (disk_manager s') ?old = data (pages s ! f) \<and>
          (\<forall>g. fst (FetchPgImp ?old s') = Some g \<longrightarrow>
               data (pages (snd (FetchPgImp ?old s')) ! g) = data (pages s ! f))"
    if np: "pinned_num s \<noteq> pool_size s"
  proof -
    let ?n = "next_page_id s"
    let ?s' = "install_page ?n f ?erased ?d1 (s1\<lparr>next_page_id := ?n + int (num_instances s)\<rparr>)"
    have eq: "NewPgImp s = Inr (Some (f, ?n), ?s')"
      using np assms(2) by (simp add: NewPgImp_wf_eq[OF assms(1)])
    from wf_NewPgImp[OF assms(1) eq] have w': "wf_pool ?s'" .
    have log: "io_log (disk_manager ?s') = io_log (disk_manager s) @ [DiskWrite ?old (data (pages s ! f)), DiskRead ?n]"
      "contents (disk_manager ?s') ?old = data (pages s ! f)"
      by (simp_all add: install_page_def ReadPage_def d1)
    have pt': "page_table ?s' = emplace ?n f ?erased" by (simp add: install_page_def)
    have "data (pages (snd (FetchPgImp ?old ?s')) ! g) = data (pages s ! f)"
      if g: "fst (FetchPgImp ?old ?s') = Some g" for g
    proof (cases "?n = ?old")
      case True
      with gone have "map_of ?erased ?n = None" by (simp add: map_of_eq_None_iff)
      then have hit: "map_of (page_table ?s') ?old = Some f"
        using True by (simp add: install_page_def emplace_def map_add_def)
      have "f < length (pages ?s')" using f(2) by (simp add: install_page_def fv)
      with FetchPgImp_hit[OF hit] g have "g = f"
        and "data (pages (snd (FetchPgImp ?old ?s')) ! g) = data (pages ?s' ! f)" by auto
      moreover have "data (pages ?s' ! f) = contents ?d1 ?n"
        using f(2) by (simp add: install_page_def ReadPage_def fv)
      ultimately show ?thesis using True d1(2) by simp
    next
      case False
      with gone keys[of ?n] have "?old \<notin> fst ` set (page_table ?s')" by (auto simp: pt')
      then have miss': "map_of (page_table ?s') ?old = None" by (simp add: map_of_eq_None_iff)
      from fetch_miss_reads_disk[OF w' miss' g] log(2) show ?thesis by simp
    qed
    with eq log show ?thesis by blast
  qed
  from fetch new show ?thesis by blast
qed

theorem dirty_victim_written_back_witness:
  "wf_pool pool_C \<and>
   find_victim pool_C = Some (0, pool_C\<lparr>replacer := \<lparr>max_pages = 2, replacer_list = [1]\<rparr>\<rparr>) \<and>
   is_dirty (pages pool_C ! 0) \<and> page_id (pages pool_C ! 0) = 0 \<and>
   data (pages pool_C ! 0) = 120 # replicate (PAGE_SIZE - 1) 0 \<and>
   map_of (page_table pool_C) 5 = None \<and>
   fst (FetchPgImp 5 pool_C) = Some 0 \<and>
   io_log (disk_manager (snd (FetchPgImp 5 pool_C))) =
     [DiskRead 0, DiskRead 1, DiskWrite 0 (120 # replicate (PAGE_SIZE - 1) 0), DiskRead 5] \<and>
   contents (disk_manager (snd (FetchPgImp 5 pool_C))) 0 = 120 # replicate (PAGE_SIZE - 1) 0 \<and>
   fst (FetchPgImp 0 (snd (FetchPgImp 5 pool_C))) = Some 1 \<and>
   data (pages (snd (FetchPgImp 0 (snd (FetchPgImp 5 pool_C)))) ! 1) = 120 # replicate (PAGE_SIZE - 1) 0 \<and>
   pinned_num pool_C \<noteq> pool_size pool_C \<and>
   (\<exists>s'. NewPgImp pool_C = Inr (Some (0, 2), s') \<and>
      io_log (disk_manager s') =
        [DiskRead 0, DiskRead 1, DiskWrite 0 (120 # replicate (PAGE_SIZE - 1) 0), DiskRead 2] \<and>
      contents (disk_manager s') 0 = 120 # replicate (PAGE_SIZE - 1) 0 \<and>
      fst (FetchPgImp 0 s') = Some 1 \<and>
      data (pages (snd (FetchPgImp 0 s')) ! 1) = 120 # replicate (PAGE_SIZE - 1) 0)"
proof -
  have v: "find_victim pool_C = Some (0, pool_C\<lparr>replacer := \<lparr>max_pages = 2, replacer_list = [1]\<rparr>\<rparr>)"
    by (simp add: pool_C_def find_victim_def Victim_def)
  have c: "is_dirty (pages pool_C ! 0)" "page_id (pages pool_C ! 0) = 0"
    "data (pages pool_C ! 0) = 120 # replicate (PAGE_SIZE - 1) 0"
    "map_of (page_table pool_C) 5 = None" "pinned_num pool_C \<noteq> pool_size pool_C"
    "io_log (disk_manager pool_C) = [DiskRead 0, DiskRead 1]" "next_page_id pool_C = 2"
    by (simp_all add: pool_C_def pinned_num_def upt_0_2)
  note inst = dirty_victim_written_back[OF wf_pool_C v c(1), of 5]
  have f1: "fst (FetchPgImp 0 (snd (FetchPgImp 5 pool_C))) = Some 1"
    by (simp add: pool_C_def bpm_defs)
  from inst c obtain s' where s': "NewPgImp pool_C = Inr (Some (0, 2), s')"
    "io_log (disk_manager s') =
        [DiskRead 0, DiskRead 1, DiskWrite 0 (120 # replicate (PAGE_SIZE - 1) 0), DiskRead 2]"
    "contents (disk_manager s') 0 = 120 # replicate (PAGE_SIZE - 1) 0"
    "\<forall>g. fst (FetchPgImp 0 s') = Some g \<longrightarrow>
         data (pages (snd (FetchPgImp 0 s')) ! g) = 120 # replicate (PAGE_SIZE - 1) 0"
    by auto
  have f2: "fst (FetchPgImp 0 s') = Some 1"
    using s'(1) by (simp add: pool_C_def bpm_defs upt_0_2, auto simp: bpm_defs)
  from inst c f1 have fetch: "fst (FetchPgImp 5 pool_C) = Some 0"
    "io_log (disk_manager (snd (FetchPgImp 5 pool_C))) =
       [DiskRead 0, DiskRead 1, DiskWrite 0 (120 # replicate (PAGE_SIZE - 1) 0), DiskRead 5]"
    "contents (disk_manager (snd (FetchPgImp 5 pool_C))) 0 = 120 # replicate (PAGE_SIZE - 1) 0"
    "data (pages (snd (FetchPgImp 0 (snd (FetchPgImp 5 pool_C)))) ! 1) = 120 # replicate (PAGE_SIZE - 1) 0"
    by auto
  from s' f2 have new: "\<exists>s'. NewPgImp pool_C = Inr (Some (0, 2), s') \<and>
      io_log (disk_manager s') =
        [DiskRead 0, DiskRead 1, DiskWrite 0 (120 # replicate (PAGE_SIZE - 1) 0), DiskRead 2] \<and>
      contents (disk_manager s') 0 = 120 # replicate (PAGE_SIZE - 1) 0 \<and>
      fst (FetchPgImp 0 s') = Some 1 \<and>
      data (pages (snd (FetchPgImp 0 s')) ! 1) = 120 # replicate (PAGE_SIZE - 1) 0"
    by auto
  from wf_pool_C v c fetch f1 new show ?thesis by blast
qed

section \<open>Deleting a page\<close>

text \<open>
  Claim C9 (\<open>DeletePage\<close>). In a well-formed pool \<open>DeletePgImp\<close> first records the
  deallocation of the page id. Then: when the page is not resident it returns true and
  nothing else changes; when the page is resident with a positive pin count it returns
  false and nothing else changes; when it is resident with pin count 0 it returns true,
  writes the buffer to disk at the page id when the frame is dirty (and issues no write
  otherwise), resets the frame (page id \<open>INVALID_PAGE_ID\<close>, clean, pin count 0, buffer
  zeroed), leaves the other frames alone, removes this page-table entry and no other, and
  appends the frame to the free list. (Pin counts are never negative in a well-formed
  pool, so the three cases are all there is.)
\<close>

theorem delete_page:
  assumes "wf_pool s"
  shows "(map_of (page_table s) pid = None \<longrightarrow>
            DeletePgImp pid s =
              (True, s\<lparr>disk_manager := (disk_manager s)
                          \<lparr>io_log := io_log (disk_manager s) @ [DiskDeallocate pid]\<rparr>\<rparr>)) \<and>
         (\<forall>f. map_of (page_table s) pid = Some f \<and> 0 < pin_count (pages s ! f) \<longrightarrow>
            DeletePgImp pid s =
              (False, s\<lparr>disk_manager := (disk_manager s)
                           \<lparr>io_log := io_log (disk_manager s) @ [DiskDeallocate pid]\<rparr>\<rparr>)) \<and>
         (\<forall>f. map_of (page_table s) pid = Some f \<and> pin_count (pages s ! f) = 0 \<longrightarrow>
            fst (DeletePgImp pid s) = True \<and>
            io_log (disk_manager (snd (DeletePgImp pid s))) =
              io_log (disk_manager s) @ DiskDeallocate pid #
                (if is_dirty (pages s ! f) then [DiskWrite pid (data (pages s ! f))] else []) \<and>
            contents (disk_manager (snd (DeletePgImp pid s))) =
              (if is_dirty (pages s ! f) then (contents (disk_manager s))(pid := data (pages s ! f))
               else contents (disk_manager s)) \<and>
            page_id (pages (snd (DeletePgImp pid s)) ! f) = INVALID_PAGE_ID \<and>
            is_dirty (pages (snd (DeletePgImp pid s)) ! f) = False \<and>
            pin_count (pages (snd (DeletePgImp pid s)) ! f) = 0 \<and>
            data (pages (snd (DeletePgImp pid s)) ! f) = replicate (length (data (pages s ! f))) 0 \<and>
            (\<forall>g. g \<noteq> f \<longrightarrow> pages (snd (DeletePgImp pid s)) ! g = pages s ! g) \<and>
            map_of (page_table (snd (DeletePgImp pid s))) pid = None \<and>
            (\<forall>q. q \<noteq> pid \<longrightarrow>
               map_of (page_table (snd (DeletePgImp pid s))) q = map_of (page_table s) q) \<and>
            free_list (snd (DeletePgImp pid s)) = free_list s @ [f])"
proof (intro conjI allI impI)
  assume "map_of (page_table s) pid = None"
  then show "DeletePgImp pid s =
              (True, s\<lparr>disk_manager := (disk_manager s)
                          \<lparr>io_log := io_log (disk_manager s) @ [DiskDeallocate pid]\<rparr>\<rparr>)"
    by (simp add: DeletePgImp_def DeallocatePage_def)
next
  fix f assume "map_of (page_table s) pid = Some f \<and> 0 < pin_count (pages s ! f)"
  then show "DeletePgImp pid s =
              (False, s\<lparr>disk_manager := (disk_manager s)
                           \<lparr>io_log := io_log (disk_manager s) @ [DiskDeallocate pid]\<rparr>\<rparr>)"
    by (simp add: DeletePgImp_def DeallocatePage_def)
next
  fix f assume a: "map_of (page_table s) pid = Some f \<and> pin_count (pages s ! f) = 0"
  with wf_entry[OF assms, of pid f] have f: "f < length (pages s)" by simp
  have eq: "DeletePgImp pid s =
      (True, s\<lparr>disk_manager :=
                  write_if_dirty pid (pages s ! f)
                    ((disk_manager s)\<lparr>io_log := io_log (disk_manager s) @ [DiskDeallocate pid]\<rparr>),
                pages := (pages s)[f := reset_Page (pages s ! f)],
                page_table := erase_key pid (page_table s),
                free_list := free_list s @ [f]\<rparr>)"
    using a by (simp add: DeletePgImp_def DeallocatePage_def)
  show "fst (DeletePgImp pid s) = True" by (simp add: eq)
  show "io_log (disk_manager (snd (DeletePgImp pid s))) =
              io_log (disk_manager s) @ DiskDeallocate pid #
                (if is_dirty (pages s ! f) then [DiskWrite pid (data (pages s ! f))] else [])"
    by (simp add: eq write_if_dirty_def WritePage_def)
  show "contents (disk_manager (snd (DeletePgImp pid s))) =
              (if is_dirty (pages s ! f) then (contents (disk_manager s))(pid := data (pages s ! f))
               else contents (disk_manager s))"
    by (simp add: eq write_if_dirty_def WritePage_def)
  show "page_id (pages (snd (DeletePgImp pid s)) ! f) = INVALID_PAGE_ID"
    "is_dirty (pages (snd (DeletePgImp pid s)) ! f) = False"
    "pin_count (pages (snd (DeletePgImp pid s)) ! f) = 0"
    "data (pages (snd (DeletePgImp pid s)) ! f) = replicate (length (data (pages s ! f))) 0"
    using f by (simp_all add: eq reset_Page_fields)
  show "map_of (page_table (snd (DeletePgImp pid s))) pid = None"
    by (simp add: eq map_of_erase_key)
  show "free_list (snd (DeletePgImp pid s)) = free_list s @ [f]"
    by (simp add: eq)
  fix g assume "g \<noteq> f"
  then show "pages (snd (DeletePgImp pid s)) ! g = pages s ! g" by (simp add: eq)
next
  fix f q assume "map_of (page_table s) pid = Some f \<and> pin_count (pages s ! f) = 0" "q \<noteq> pid"
  then show "map_of (page_table (snd (DeletePgImp pid s))) q = map_of (page_table s) q"
    by (simp add: DeletePgImp_def DeallocatePage_def map_of_erase_key)
qed

theorem delete_page_witness:
  "wf_pool pool_B \<and> map_of (page_table pool_B) 0 = Some 0 \<and> pin_count (pages pool_B ! 0) = 0 \<and>
   is_dirty (pages pool_B ! 0) \<and>
   fst (DeletePgImp 0 pool_B) = True \<and>
   io_log (disk_manager (snd (DeletePgImp 0 pool_B))) =
     [DiskRead 0, DiskDeallocate 0, DiskWrite 0 (120 # replicate (PAGE_SIZE - 1) 0)] \<and>
   contents (disk_manager (snd (DeletePgImp 0 pool_B))) 0 = 120 # replicate (PAGE_SIZE - 1) 0 \<and>
   page_id (pages (snd (DeletePgImp 0 pool_B)) ! 0) = INVALID_PAGE_ID \<and>
   is_dirty (pages (snd (DeletePgImp 0 pool_B)) ! 0) = False \<and>
   pin_count (pages (snd (DeletePgImp 0 pool_B)) ! 0) = 0 \<and>
   data (pages (snd (DeletePgImp 0 pool_B)) ! 0) = replicate PAGE_SIZE 0 \<and>
   map_of (page_table (snd (DeletePgImp 0 pool_B))) 0 = None \<and>
   free_list (snd (DeletePgImp 0 pool_B)) = [0] \<and>
   map_of (page_table pool_B) 7 = None \<and>
   fst (DeletePgImp 7 pool_B) = True \<and>
   map_of (page_table pool_A) 0 = Some 0 \<and> 0 < pin_count (pages pool_A ! 0) \<and>
   fst (DeletePgImp 0 pool_A) = False \<and>
   page_table (snd (DeletePgImp 0 pool_A)) = page_table pool_A"
proof -
  have b: "map_of (page_table pool_B) 0 = Some 0" "pin_count (pages pool_B ! 0) = 0"
    "is_dirty (pages pool_B ! 0)" "map_of (page_table pool_B) 7 = None"
    "io_log (disk_manager pool_B) = [DiskRead 0]"
    "data (pages pool_B ! 0) = 120 # replicate (PAGE_SIZE - 1) 0"
    "free_list pool_B = []"
    by (simp_all add: pool_B_def)
  have a: "map_of (page_table pool_A) 0 = Some 0" "0 < pin_count (pages pool_A ! 0)"
    by (simp_all add: pool_A_def)
  have len: "Suc (PAGE_SIZE - 1) = PAGE_SIZE" by (simp add: PAGE_SIZE_def)
  from delete_page[OF wf_pool_B, of 0] delete_page[OF wf_pool_B, of 7] delete_page[OF wf_pool_A, of 0]
    wf_pool_B a b len
  show ?thesis by simp
qed

section \<open>Fetching a resident page\<close>

text \<open>
  Claim C10 (\<open>FetchPage\<close> of a resident page). In a well-formed pool, \<open>FetchPgImp\<close>
  of a page that the page table maps to frame \<open>f\<close> returns \<open>f\<close>; the disk (contents
  and trace) is unchanged, so no read or write is issued; the page table and the free list
  are unchanged; every other frame is unchanged; the frame's buffer, page id and dirty flag
  are unchanged; and its pin count is one more than before.
\<close>

theorem fetch_resident_page:
  assumes "wf_pool s" and "map_of (page_table s) pid = Some f"
  shows "fst (FetchPgImp pid s) = Some f \<and>
         disk_manager (snd (FetchPgImp pid s)) = disk_manager s \<and>
         page_table (snd (FetchPgImp pid s)) = page_table s \<and>
         free_list (snd (FetchPgImp pid s)) = free_list s \<and>
         length (pages (snd (FetchPgImp pid s))) = length (pages s) \<and>
         (\<forall>g. g \<noteq> f \<longrightarrow> pages (snd (FetchPgImp pid s)) ! g = pages s ! g) \<and>
         data (pages (snd (FetchPgImp pid s)) ! f) = data (pages s ! f) \<and>
         page_id (pages (snd (FetchPgImp pid s)) ! f) = page_id (pages s ! f) \<and>
         is_dirty (pages (snd (FetchPgImp pid s)) ! f) = is_dirty (pages s ! f) \<and>
         pin_count (pages (snd (FetchPgImp pid s)) ! f) = pin_count (pages s ! f) + 1"
proof -
  from wf_entry[OF assms] have "f < length (pages s)" by simp
  with assms(2) show ?thesis by (simp add: FetchPgImp_def)
qed

theorem fetch_resident_page_witness:
  "wf_pool pool_A \<and> map_of (page_table pool_A) 0 = Some 0 \<and>
   fst (FetchPgImp 0 pool_A) = Some 0 \<and>
   disk_manager (snd (FetchPgImp 0 pool_A)) = disk_manager pool_A \<and>
   page_table (snd (FetchPgImp 0 pool_A)) = page_table pool_A \<and>
   free_list (snd (FetchPgImp 0 pool_A)) = free_list pool_A \<and>
   data (pages (snd (FetchPgImp 0 pool_A)) ! 0) = data (pages pool_A ! 0) \<and>
   page_id (pages (snd (FetchPgImp 0 pool_A)) ! 0) = 0 \<and>
   is_dirty (pages (snd (FetchPgImp 0 pool_A)) ! 0) = False \<and>
   pin_count (pages pool_A ! 0) = 1 \<and>
   pin_count (pages (snd (FetchPgImp 0 pool_A)) ! 0) = 2"
proof -
  have m: "map_of (page_table pool_A) 0 = Some 0" by (simp add: pool_A_def)
  have v: "page_id (pages pool_A ! 0) = 0" "is_dirty (pages pool_A ! 0) = False"
    "pin_count (pages pool_A ! 0) = 1" by (simp_all add: pool_A_def)
  from fetch_resident_page[OF wf_pool_A m] wf_pool_A m v show ?thesis by simp
qed

end
